theory Spec2Isabelle
  imports Complex_Main "HOL-Library.Monad_Syntax"
begin

section \<open>Data model\<close>

text \<open>
  Lengths and coordinates are whole micrometers (\<open>data.Micrometer\<close>, a 64-bit integer in
  the Go code).  The values the slicer works with are far from the bounds of that type, so
  they are modelled as \<open>int\<close>; Go's division, which truncates towards zero, is written out
  where the code divides.
\<close>

type_synonym Micrometer = int

datatype MicroPoint = MicroPoint (X: Micrometer) (Y: Micrometer)

type_synonym Path = "MicroPoint list"

text \<open>
  A Go slice is either \<open>nil\<close> or a sequence of elements; the code tests both \<open>x == nil\<close>
  and \<open>len(x)\<close>, so a slice is an optional list: \<open>None\<close> is \<open>nil\<close>, \<open>Some []\<close> is the empty
  slice \<open>[]T{}\<close>.
\<close>

type_synonym 'a slice = "'a list option"

definition len :: "'a slice \<Rightarrow> nat" where
  "len s = (case s of None \<Rightarrow> 0 | Some xs \<Rightarrow> length xs)"

record LayerPart =
  Outline :: Path
  Holes :: "Path list"

text \<open>
  The attribute map of a layer is a Go \<open>map[string]interface{}\<close>.  The modifiers store
  lists of layer parts, lists of paths and the nested inset result in it; the type
  assertion \<open>attr.([]data.LayerPart)\<close> succeeds on the first kind only.
\<close>

datatype attribute =
  AttrLayerParts "LayerPart slice"
| AttrPaths "Path slice"
| AttrInsets "LayerPart list list list"

record PartitionedLayer =
  LayerParts :: "LayerPart list"
  Attributes :: "string \<rightharpoonup> attribute"

text \<open>The decimal digits of a number, as \<open>fmt\<close> prints it for \<open>%d\<close> and \<open>%v\<close>.\<close>

fun showNat :: "nat \<Rightarrow> string" where
  "showNat n =
     (if n < 10 then [''0123456789'' ! n]
      else showNat (n div 10) @ [''0123456789'' ! (n mod 10)])"

declare showNat.simps [simp del]

definition showInt :: "int \<Rightarrow> string" where
  "showInt i = (if i < 0 then ''-'' @ showNat (nat (- i)) else showNat (nat i))"

section \<open>Geometry primitives\<close>

text \<open>
  The methods of points and paths belong to the packages \<open>data\<close> and \<open>util\<close>, which are not
  among the source files that are verified here.  They are modelled from the specification, which
  lists \<open>Sub\<close>, \<open>Size\<close> (hypot), and \<open>ShorterThan(d)\<close> and \<open>ShorterThanOrEqual(d)\<close> using squared
  magnitudes to avoid a square root.
\<close>

text \<open>Modelled from the spec: \<open>Sub\<close> is the difference of two points, taken by coordinate.\<close>

definition Sub :: "MicroPoint \<Rightarrow> MicroPoint \<Rightarrow> MicroPoint" where
  "Sub p q = MicroPoint (X p - X q) (Y p - Y q)"

text \<open>Modelled from the spec: the squared magnitude of a vector.\<close>

definition Size2 :: "MicroPoint \<Rightarrow> Micrometer" where
  "Size2 p = X p * X p + Y p * Y p"

text \<open>
  Modelled from the spec: \<open>Size\<close> is the Euclidean length of a vector.  The result is a
  \<open>Micrometer\<close>, so the length is cut to whole micrometers: it is the integer square root
  of the squared magnitude, found here by bisection.
\<close>

function sqrtBetween :: "nat \<Rightarrow> nat \<Rightarrow> nat \<Rightarrow> nat" where
  "sqrtBetween n lo hi =
     (if hi \<le> Suc lo then lo
      else (let mid = (lo + hi) div 2
            in if mid * mid \<le> n then sqrtBetween n mid hi else sqrtBetween n lo mid))"
  by pat_completeness auto
termination
  by (relation "measure (\<lambda>(n, lo, hi). hi - lo)") auto

declare sqrtBetween.simps [simp del]

definition isqrt :: "nat \<Rightarrow> nat" where
  "isqrt n = sqrtBetween n 0 (Suc n)"

definition Size :: "MicroPoint \<Rightarrow> Micrometer" where
  "Size p = int (isqrt (nat (Size2 p)))"

text \<open>
  Modelled from the spec: \<open>ShorterThan(d)\<close> compares the squared magnitude with the square
  of \<open>d\<close>.
\<close>

definition ShorterThan :: "MicroPoint \<Rightarrow> Micrometer \<Rightarrow> bool" where
  "ShorterThan p d = (Size2 p < d * d)"

text \<open>
  Modelled from the spec: \<open>ShorterThanOrEqual(d)\<close> compares the squared magnitude with the
  square of \<open>d\<close> and holds for equal values too.
\<close>

definition ShorterThanOrEqual :: "MicroPoint \<Rightarrow> Micrometer \<Rightarrow> bool" where
  "ShorterThanOrEqual p d = (Size2 p \<le> d * d)"

text \<open>
  Modelled from the spec: a path is almost finished when it nearly closes, that is when
  its first and its last point lie within the given distance.  The clean-up below takes
  the test as a parameter \<open>iaf\<close>; this definition is the instance used on concrete inputs.
\<close>

definition IsAlmostFinished :: "Path \<Rightarrow> Micrometer \<Rightarrow> bool" where
  "IsAlmostFinished p d = (case p of [] \<Rightarrow> False | p0 # _ \<Rightarrow> ShorterThan (Sub p0 (last p)) d)"

text \<open>
  The total length of a path as the clean-up measures it: the sum of the sizes of its
  segments.
\<close>

fun totalLength :: "Path \<Rightarrow> Micrometer" where
  "totalLength (p # q # rest) = Size (Sub q p) + totalLength (q # rest)"
| "totalLength _ = 0"

section \<open>The clip package\<close>

text \<open>
  The clipping library (\<open>go.clipper\<close>) is external to the repository.  Its point type
  \<open>IntPoint\<close> and its polygon tree are modelled as data; its operations are parameters of
  the functions that call them:
  \<^item> \<open>executeUnion paths\<close> is \<open>AddPaths(paths, PtSubject, true)\<close> followed by
    \<open>Execute2(CtUnion, PftEvenOdd, PftEvenOdd)\<close>; \<open>None\<close> stands for \<open>ok = false\<close>;
  \<open>executeIntersection clip lines\<close> is the same with the closed clip paths, the open
    subject paths and \<open>CtIntersection\<close>;
  \<^item> \<open>execute2 paths delta\<close> is a \<open>ClipperOffset\<close> that is cleared, given the closed paths
    with square joins and miter limit 2, and executed with \<open>delta\<close> into a polygon tree;
    \<open>execute paths delta\<close> is the variant that returns paths.
  The library takes \<open>delta\<close> as a \<open>float64\<close>.  \<open>Inset\<close> passes the difference of two integers,
  which is modelled as that integer; \<open>getLinearFill\<close> passes a fraction computed in
  \<open>float32\<close>, which is modelled as the exact real number, without the rounding.
\<close>

datatype IntPoint = IntPoint (IX: int) (IY: int)

type_synonym IntPath = "IntPoint list"

datatype PolyNode = PolyNode (Contour: IntPath) (Childs: "PolyNode list")

definition clipperPoint :: "MicroPoint \<Rightarrow> IntPoint" where
  "clipperPoint p = IntPoint (X p) (Y p)"

definition clipperPath :: "Path \<Rightarrow> IntPath" where
  "clipperPath p = map clipperPoint p"

definition clipperPaths :: "Path list \<Rightarrow> IntPath list" where
  "clipperPaths p = map clipperPath p"

definition microPoint :: "IntPoint \<Rightarrow> MicroPoint" where
  "microPoint p = MicroPoint (IX p) (IY p)"

text \<open>
  Every call of \<open>microPath\<close> and \<open>microPaths\<close> in the package passes \<open>simplify = false\<close>; the
  branch that calls \<open>Path.Simplify\<close> is left out.
\<close>

definition microPath :: "IntPath \<Rightarrow> Path" where
  "microPath p = map microPoint p"

definition microPaths :: "IntPath list \<Rightarrow> Path list" where
  "microPaths p = map microPath p"

subsection \<open>polyTreeToLayerParts\<close>

text \<open>
  The tree is walked in rounds.  Every node of a round becomes a layer part whose holes
  are the contours of its children; the children of those children are the next round.
\<close>

definition nodeToPart :: "PolyNode \<Rightarrow> LayerPart" where
  "nodeToPart p =
     \<lparr>Outline = microPath (Contour p),
      Holes = map (\<lambda>child. microPath (Contour child)) (Childs p)\<rparr>"

definition grandChilds :: "PolyNode \<Rightarrow> PolyNode list" where
  "grandChilds p = concat (map Childs (Childs p))"

fun treeSize :: "PolyNode \<Rightarrow> nat" where
  "treeSize (PolyNode c ch) = Suc (sum_list (map treeSize ch))"

lemma treeSize_Childs: "sum_list (map treeSize (Childs p)) < treeSize p"
  by (cases p) simp

lemma treeSize_grandChilds: "sum_list (map treeSize (grandChilds p)) < treeSize p"
proof -
  have "sum_list (map treeSize (concat (map Childs ch))) \<le> sum_list (map treeSize ch)" for ch
  proof (induction ch)
    case Nil
    show ?case by simp
  next
    case (Cons c ch)
    then show ?case using treeSize_Childs[of c] by simp
  qed
  then show ?thesis using treeSize_Childs[of p] unfolding grandChilds_def
    by (meson le_less_trans)
qed

lemma treeSize_round:
  "thisRound \<noteq> [] \<Longrightarrow>
   sum_list (map treeSize (concat (map grandChilds thisRound))) < sum_list (map treeSize thisRound)"
proof (induction thisRound)
  case Nil
  then show ?case by simp
next
  case (Cons p ps)
  show ?case
  proof (cases "ps = []")
    case True
    then show ?thesis using treeSize_grandChilds[of p] by simp
  next
    case False
    with Cons.IH treeSize_grandChilds[of p] show ?thesis by simp
  qed
qed

function treeRounds :: "PolyNode list \<Rightarrow> LayerPart list \<Rightarrow> LayerPart list" where
  "treeRounds thisRound layerParts =
     (if thisRound = [] then layerParts
      else treeRounds (concat (map grandChilds thisRound))
             (layerParts @ map nodeToPart thisRound))"
  by pat_completeness auto
termination
  by (relation "measure (\<lambda>(thisRound, layerParts). sum_list (map treeSize thisRound))")
     (simp_all add: treeSize_round)

declare treeRounds.simps [simp del]

definition polyTreeToLayerParts :: "PolyNode \<Rightarrow> LayerPart list" where
  "polyTreeToLayerParts tree = treeRounds (Childs tree) []"

subsection \<open>GenerateLayerParts\<close>

text \<open>
  The inner loop over the points of one polygon, with their indices: \<open>prev\<close> is the index
  of the point kept last, \<open>path\<close> the clipper path built so far.
\<close>

fun filterPoints :: "Path \<Rightarrow> (nat \<times> MicroPoint) list \<Rightarrow> nat \<Rightarrow> IntPath \<Rightarrow> IntPath" where
  "filterPoints layerPolygon [] prev path = path"
| "filterPoints layerPolygon ((j, layerPoint) # rest) prev path =
     (if j = 0
      then filterPoints layerPolygon rest prev (path @ [clipperPoint (layerPolygon ! 0)])
      else if ShorterThanOrEqual (Sub layerPoint (layerPolygon ! prev)) 100
      then filterPoints layerPolygon rest prev path
      else filterPoints layerPolygon rest j (path @ [clipperPoint layerPoint]))"

definition filteredPath :: "Path \<Rightarrow> IntPath" where
  "filteredPath layerPolygon = filterPoints layerPolygon (enumerate 0 layerPolygon) 0 []"

text \<open>
  Modelled from the spec: \<open>data.NewPartitionedLayer\<close> makes a layer of the given parts
  that carries no attribute yet.
\<close>

definition NewPartitionedLayer :: "LayerPart list \<Rightarrow> PartitionedLayer" where
  "NewPartitionedLayer parts = \<lparr>LayerParts = parts, Attributes = Map.empty\<rparr>"

text \<open>The result \<open>(nil, false)\<close> is \<open>None\<close>.\<close>

definition GenerateLayerParts ::
  "(IntPath list \<Rightarrow> PolyNode option) \<Rightarrow> Path list \<Rightarrow> PartitionedLayer option" where
  "GenerateLayerParts executeUnion layerPolygons =
     (let polyList = map filteredPath layerPolygons
      in if length polyList = 0 then Some (NewPartitionedLayer [])
         else (case executeUnion polyList of
                 None \<Rightarrow> None
               | Some resultPolys \<Rightarrow>
                   Some (NewPartitionedLayer (polyTreeToLayerParts resultPolys))))"

subsection \<open>Inset\<close>

text \<open>Go's integer division truncates towards zero.\<close>

definition quot :: "int \<Rightarrow> int \<Rightarrow> int" where
  "quot a b = sgn a * sgn b * (\<bar>a\<bar> div \<bar>b\<bar>)"

text \<open>The argument of \<open>Execute2\<close>: \<open>float64(-int(offset)*insetNr) - float64(offset/2)\<close>.\<close>

definition insetDelta :: "Micrometer \<Rightarrow> nat \<Rightarrow> int" where
  "insetDelta offset insetNr = (- offset) * int insetNr - quot offset 2"

function insetLoop ::
  "(IntPath list \<Rightarrow> int \<Rightarrow> PolyNode) \<Rightarrow> LayerPart \<Rightarrow> Micrometer \<Rightarrow> int \<Rightarrow> nat
     \<Rightarrow> LayerPart list list \<Rightarrow> LayerPart list list" where
  "insetLoop execute2 part offset insetCount insetNr insets =
     (if int insetNr < insetCount
      then insetLoop execute2 part offset insetCount (Suc insetNr)
             (insets @ [polyTreeToLayerParts
                          (execute2 (clipperPaths [Outline part] @ clipperPaths (Holes part))
                             (insetDelta offset insetNr))])
      else insets)"
  by pat_completeness auto
termination
  by (relation "measure (\<lambda>(e, p, off, insetCount, insetNr, ins). nat (insetCount - int insetNr))")
     auto

declare insetLoop.simps [simp del]

definition Inset ::
  "(IntPath list \<Rightarrow> int \<Rightarrow> PolyNode) \<Rightarrow> LayerPart \<Rightarrow> Micrometer \<Rightarrow> int \<Rightarrow> LayerPart list list" where
  "Inset execute2 part offset insetCount = insetLoop execute2 part offset insetCount 0 []"

definition InsetLayer ::
  "(IntPath list \<Rightarrow> int \<Rightarrow> PolyNode) \<Rightarrow> LayerPart list \<Rightarrow> Micrometer \<Rightarrow> int
     \<Rightarrow> LayerPart list list list" where
  "InsetLayer execute2 layer offset insetCount =
     map (\<lambda>part. Inset execute2 part offset insetCount) layer"

subsection \<open>Fill\<close>







text \<open>
  The indices that the point filter keeps after the first one, used to state what the
  filter does: \<open>ks\<close> are the indices kept so far, \<open>js\<close> the indices still to come.
\<close>

fun keptAfter :: "Path \<Rightarrow> nat list \<Rightarrow> nat list \<Rightarrow> nat list" where
  "keptAfter ps [] ks = ks"
| "keptAfter ps (j # js) ks =
     (if ShorterThanOrEqual (Sub (ps ! j) (ps ! last ks)) 100
      then keptAfter ps js ks else keptAfter ps js (ks @ [j]))"

section \<open>The support modifiers\<close>

subsection \<open>Reading attributes\<close>

text \<open>
  \<open>FullSupport\<close> returns a pair \<open>([]data.LayerPart, error)\<close>; the error is \<open>nil\<close> or the
  message built by \<open>errors.New\<close>.
\<close>

definition FullSupport :: "PartitionedLayer \<Rightarrow> LayerPart slice \<times> string option" where
  "FullSupport layer =
     (case Attributes layer ''fullSupport'' of
        Some attr \<Rightarrow>
          (case attr of
             AttrLayerParts fullSupport \<Rightarrow> (fullSupport, None)
           | _ \<Rightarrow> (None, Some ''the attribute fullSupport has the wrong datatype''))
      | None \<Rightarrow> (None, None))"

text \<open>
  Modelled from the spec: \<open>PartsAttribute\<close>, the reader that the modifiers call for any
  attribute name, is not part of the sources at hand.  A missing attribute is treated as
  empty and only a wrong type is an error, as in \<open>FullSupport\<close> above.
\<close>

definition PartsAttribute :: "PartitionedLayer \<Rightarrow> string \<Rightarrow> LayerPart slice \<times> string option" where
  "PartsAttribute layer name =
     (case Attributes layer name of
        Some attr \<Rightarrow>
          (case attr of
             AttrLayerParts parts \<Rightarrow> (parts, None)
           | _ \<Rightarrow> (None, Some (''the attribute '' @ name @ '' has the wrong datatype'')))
      | None \<Rightarrow> (None, None))"

text \<open>
  Modelled from the spec: \<open>newExtendedLayer\<close> is not part of the sources at hand.  It wraps
  a layer so that a modifier can write into its attribute map; the parts and the
  attributes present are those of the layer.
\<close>

definition newExtendedLayer :: "PartitionedLayer \<Rightarrow> PartitionedLayer" where
  "newExtendedLayer layer = \<lparr>LayerParts = LayerParts layer, Attributes = Attributes layer\<rparr>"

definition setAttribute :: "PartitionedLayer \<Rightarrow> string \<Rightarrow> attribute \<Rightarrow> PartitionedLayer" where
  "setAttribute layer name attr = layer\<lparr>Attributes := (Attributes layer)(name \<mapsto> attr)\<rparr>"

subsection \<open>The clipper of the modifiers\<close>

text \<open>
  The modifiers call a later revision of the clip package than the one above:
  \<open>InsetLayer\<close> with four arguments, \<open>Union\<close>, \<open>Difference\<close> and \<open>ToOneDimension\<close> are not part
  of the sources at hand.  \<open>Union\<close> and \<open>Difference\<close> are parameters that return the parts
  and the flag \<open>ok\<close> (\<open>Union\<close> is written \<open>Union'\<close> here); they read their arguments as
  sequences of parts.  The offset of one part by a signed distance is the parameter
  \<open>offsetPart\<close>.
\<close>

record clipper =
  offsetPart :: "LayerPart \<Rightarrow> Micrometer \<Rightarrow> LayerPart list"
  Union' :: "LayerPart list \<Rightarrow> LayerPart list \<Rightarrow> LayerPart slice \<times> bool"
  Difference :: "LayerPart list \<Rightarrow> LayerPart list \<Rightarrow> LayerPart slice \<times> bool"

definition sliceList :: "'a slice \<Rightarrow> 'a list" where
  "sliceList s = (case s of None \<Rightarrow> [] | Some xs \<Rightarrow> xs)"

text \<open>
  Modelled from the spec: \<open>InsetLayer(parts, offset, count, firstOffset)\<close> returns for every
  part its successive offsets; inset 0 uses \<open>firstOffset\<close>, the insets \<open>1..count-1\<close> use
  \<open>offset * i\<close>, and a negative offset shrinks.
\<close>

definition InsetLayerFirst ::
  "clipper \<Rightarrow> LayerPart list \<Rightarrow> Micrometer \<Rightarrow> int \<Rightarrow> Micrometer \<Rightarrow> LayerPart list list list" where
  "InsetLayerFirst cl parts offset insetCount firstOffset =
     map (\<lambda>part. map (\<lambda>i. offsetPart cl part (if i = 0 then firstOffset else offset * int i))
                    [0..<nat insetCount])
       parts"

text \<open>
  Modelled from the spec: \<open>ToOneDimension\<close> turns the result \<open>[part][insetIdx][subpart]\<close> into
  one flat list of layer parts.
\<close>

definition ToOneDimension :: "LayerPart list list list \<Rightarrow> LayerPart list" where
  "ToOneDimension r = concat (concat r)"

subsection \<open>Options\<close>

text \<open>
  The support options as the modifiers read them: \<open>PatternSpacing\<close> and \<open>Gap\<close> hold the
  values of \<open>PatternSpacing.ToMicrometer()\<close> and \<open>Gap.ToMicrometer()\<close>.  The detector
  computes \<open>distance\<close> from the layer thickness and the tangent of the threshold angle in
  floating point; the model takes the rounded value \<open>math.Round(distance)\<close> as the
  field \<open>RoundedDistance\<close>.
\<close>

record SupportOptions =
  Enabled :: bool
  TopGapLayers :: int
  InterfaceLayers :: int
  PatternSpacing :: Micrometer
  Gap :: Micrometer
  RoundedDistance :: int

subsection \<open>supportDetectorModifier.Modify\<close>

text \<open>
  \<open>Modify\<close> changes the slice of layers in place and returns an error or \<open>nil\<close>.  The model
  returns the layers together with the error; \<open>None\<close> is a panic on an index out of range.
\<close>

type_synonym modified = "(PartitionedLayer list \<times> string option) option"

definition detectSupport :: "clipper \<Rightarrow> SupportOptions \<Rightarrow> PartitionedLayer list \<Rightarrow> nat
    \<Rightarrow> LayerPart slice \<times> bool" where
  "detectSupport cl opts layers layerNr =
     (let offsetLayer = ToOneDimension
            (InsetLayerFirst cl (LayerParts (layers ! layerNr))
               (- RoundedDistance opts) 1 (quot (- (- RoundedDistance opts)) 2))
      in Difference cl (LayerParts (layers ! (layerNr + 1))) offsetLayer)"

definition enlargeSupport :: "clipper \<Rightarrow> SupportOptions \<Rightarrow> LayerPart list \<Rightarrow> LayerPart list" where
  "enlargeSupport cl opts support =
     ToOneDimension
       (InsetLayerFirst cl support (- PatternSpacing opts * 3) 1 (quot (PatternSpacing opts * 3) 2))"

fun detectorLoop :: "clipper \<Rightarrow> SupportOptions \<Rightarrow> nat list \<Rightarrow> PartitionedLayer list \<Rightarrow> modified" where
  "detectorLoop cl opts [] layers = Some (layers, None)"
| "detectorLoop cl opts (layerNr # rest) layers =
     (if \<not> Enabled opts then Some (layers, None)
      else if int layerNr = int (length layers) - 1 \<or> int layerNr < TopGapLayers opts
      then detectorLoop cl opts rest layers
      else if length layers \<le> layerNr + 1 then None
      else (case detectSupport cl opts layers layerNr of
              (support, ok) \<Rightarrow>
                if \<not> ok then Some (layers, Some ''could not calculate the support parts'')
                else (let support1 = enlargeSupport cl opts (sliceList support);
                          target = int layerNr - TopGapLayers opts
                      in if target < int (length layers)
                         then (let newLayer = newExtendedLayer (layers ! nat target);
                                   newLayer1 =
                                     (if length support1 > 0
                                      then setAttribute newLayer ''support''
                                             (AttrLayerParts (Some support1))
                                      else newLayer)
                               in detectorLoop cl opts rest (layers[nat target := newLayer1]))
                         else None)))"

definition supportDetector :: "clipper \<Rightarrow> SupportOptions \<Rightarrow> PartitionedLayer list \<Rightarrow> modified" where
  "supportDetector cl opts layers = detectorLoop cl opts [0..<length layers] layers"

subsection \<open>supportGeneratorModifier.Modify\<close>

text \<open>
  One round of the loop either returns from \<open>Modify\<close>, continues with the next layer, or
  stores a new layer below and hands its support on as \<open>lastSupport\<close>.
\<close>

datatype roundResult = Return "string option" | Continue | Stored "LayerPart slice" "PartitionedLayer list"

text \<open>
  The areas of one round: \<open>actualSupport\<close>, \<open>interfaceParts\<close> and
  \<open>actualWithoutInterfaceParts\<close>.  The function \<open>BrimOuterDimension\<close> is not part of the
  sources at hand and is the parameter \<open>brimOuterDimension\<close>.
\<close>

datatype areas = Failed string | NoSupport | Areas "LayerPart slice" "LayerPart slice" "LayerPart slice"

definition interfaceAreas ::
  "clipper \<Rightarrow> (PartitionedLayer \<Rightarrow> LayerPart slice \<times> string option) \<Rightarrow> SupportOptions
     \<Rightarrow> PartitionedLayer list \<Rightarrow> nat \<Rightarrow> LayerPart slice \<Rightarrow> areas option" where
  "interfaceAreas cl brimOuterDimension opts layers layerNr actualSupport =
     (let layerNrAboveInterface0 = int layerNr + InterfaceLayers opts - 1;
          layerNrAboveInterface =
            (if layerNrAboveInterface0 \<ge> int (length layers) then int (length layers) - 1
             else layerNrAboveInterface0)
      in if layerNrAboveInterface < 0 \<or> int (length layers) \<le> layerNrAboveInterface then None
         else (case PartsAttribute (layers ! nat layerNrAboveInterface) ''fullSupport'' of
           (supportAboveInterface, err) \<Rightarrow>
             (case err of
                Some e \<Rightarrow> Some (Failed e)
              | None \<Rightarrow>
             (case Difference cl (sliceList actualSupport) (sliceList supportAboveInterface) of
                (interfaceParts, ok) \<Rightarrow>
                  if \<not> ok then Some (Failed ''error while calculating interface parts'')
                  else (case Difference cl (sliceList actualSupport) (sliceList interfaceParts) of
                    (actualWithoutInterfaceParts, ok) \<Rightarrow>
                      if \<not> ok
                      then Some (Failed
                        ''error while calculating the actual support without the interface parts'')
                      else (case brimOuterDimension (layers ! (layerNr - 1)) of
                        (brimArea, err) \<Rightarrow>
                          (case err of
                             Some e \<Rightarrow> Some (Failed e)
                           | None \<Rightarrow>
                               if brimArea \<noteq> None
                               then Some (Areas actualSupport
                                      (fst (Difference cl (sliceList interfaceParts)
                                              (sliceList brimArea)))
                                      (fst (Difference cl (sliceList actualWithoutInterfaceParts)
                                              (sliceList brimArea))))
                               else Some (Areas actualSupport interfaceParts
                                            actualWithoutInterfaceParts))))))))"

definition supportAreas ::
  "clipper \<Rightarrow> (PartitionedLayer \<Rightarrow> LayerPart slice \<times> string option) \<Rightarrow> SupportOptions
     \<Rightarrow> PartitionedLayer list \<Rightarrow> nat \<Rightarrow> LayerPart slice \<Rightarrow> areas option" where
  "supportAreas cl brimOuterDimension opts layers layerNr lastSupport =
     (case (if lastSupport = None then PartsAttribute (layers ! layerNr) ''support''
            else (lastSupport, None)) of
        (currentSupport, err) \<Rightarrow>
          (case err of
             Some e \<Rightarrow> Some (Failed e)
           | None \<Rightarrow>
          (case PartsAttribute (layers ! (layerNr - 1)) ''support'' of
             (belowSupport, err) \<Rightarrow>
               (case err of
                  Some e \<Rightarrow> Some (Failed e)
                | None \<Rightarrow>
                    if len currentSupport = 0 \<and> len belowSupport = 0 then Some NoSupport
                    else (case Union' cl (sliceList currentSupport) (sliceList belowSupport) of
                      (result, ok) \<Rightarrow>
                        if \<not> ok
                        then Some (Failed (''could not union the supports for layer ''
                                     @ showNat layerNr @ '' to generate support''))
                        else (let biggerLayer = ToOneDimension
                                    (InsetLayerFirst cl (LayerParts (layers ! (layerNr - 1)))
                                       (- Gap opts) 1 (quot (Gap opts) 2))
                              in case Difference cl (sliceList result) biggerLayer of
                                (actualSupport, ok) \<Rightarrow>
                                  if \<not> ok
                                  then Some (Failed
                                    (''could not subtract the model from the supports for layer ''
                                       @ showNat layerNr))
                                  else if actualSupport \<noteq> None
                                  then interfaceAreas cl brimOuterDimension opts layers layerNr
                                         actualSupport
                                  else Some (Areas actualSupport None None)))))))"

text \<open>The new layer that a round stores at \<open>layerNr - 1\<close>.\<close>

definition saveSupport ::
  "PartitionedLayer \<Rightarrow> LayerPart slice \<Rightarrow> LayerPart slice \<Rightarrow> LayerPart slice \<Rightarrow> PartitionedLayer" where
  "saveSupport below actualSupport interfaceParts actualWithoutInterfaceParts =
     (let newLayer = newExtendedLayer below;
          newLayer1 = (if len actualSupport > 0
                       then setAttribute newLayer ''fullSupport'' (AttrLayerParts actualSupport)
                       else newLayer);
          newLayer2 = (if len interfaceParts > 0
                       then setAttribute newLayer1 ''supportInterface''
                              (AttrLayerParts interfaceParts)
                       else newLayer1)
      in if len actualWithoutInterfaceParts > 0
         then setAttribute newLayer2 ''support'' (AttrLayerParts actualWithoutInterfaceParts)
         else setAttribute newLayer2 ''support'' (AttrLayerParts (Some [])))"

definition generateSupport ::
  "clipper \<Rightarrow> (PartitionedLayer \<Rightarrow> LayerPart slice \<times> string option) \<Rightarrow> SupportOptions
     \<Rightarrow> PartitionedLayer list \<Rightarrow> nat \<Rightarrow> LayerPart slice \<Rightarrow> roundResult option" where
  "generateSupport cl brimOuterDimension opts layers layerNr lastSupport =
     (if length layers \<le> layerNr then None
      else (case supportAreas cl brimOuterDimension opts layers layerNr lastSupport of
              None \<Rightarrow> None
            | Some (Failed e) \<Rightarrow> Some (Return (Some e))
            | Some NoSupport \<Rightarrow> Some Continue
            | Some (Areas actualSupport interfaceParts actualWithoutInterfaceParts) \<Rightarrow>
                Some (Stored actualSupport
                        (layers[layerNr - 1 :=
                           saveSupport (layers ! (layerNr - 1)) actualSupport interfaceParts
                             actualWithoutInterfaceParts]))))"

fun generatorLoop ::
  "clipper \<Rightarrow> (PartitionedLayer \<Rightarrow> LayerPart slice \<times> string option) \<Rightarrow> SupportOptions
     \<Rightarrow> nat list \<Rightarrow> LayerPart slice \<Rightarrow> PartitionedLayer list \<Rightarrow> modified" where
  "generatorLoop cl brimOuterDimension opts [] lastSupport layers = Some (layers, None)"
| "generatorLoop cl brimOuterDimension opts (layerNr # rest) lastSupport layers =
     (if \<not> Enabled opts \<or> layerNr = 0 then Some (layers, None)
      else (case generateSupport cl brimOuterDimension opts layers layerNr lastSupport of
              None \<Rightarrow> None
            | Some (Return err) \<Rightarrow> Some (layers, err)
            | Some Continue \<Rightarrow> generatorLoop cl brimOuterDimension opts rest lastSupport layers
            | Some (Stored lastSupport1 layers1) \<Rightarrow>
                generatorLoop cl brimOuterDimension opts rest lastSupport1 layers1))"

text \<open>The loop runs \<open>layerNr\<close> from \<open>len(layers) - 2\<close> down to 0.\<close>

definition supportGenerator ::
  "clipper \<Rightarrow> (PartitionedLayer \<Rightarrow> LayerPart slice \<times> string option) \<Rightarrow> SupportOptions
     \<Rightarrow> PartitionedLayer list \<Rightarrow> modified" where
  "supportGenerator cl brimOuterDimension opts layers =
     generatorLoop cl brimOuterDimension opts (rev [0..<length layers - 1]) None layers"

subsection \<open>What the modifiers store, in the words of the specification\<close>

text \<open>
  The region that needs support above layer \<open>n\<close>: the parts of layer \<open>n + 1\<close> minus the
  parts of layer \<open>n\<close> offset by the first offset of the call, which is half the rounded
  distance; \<open>differenceOk\<close> is the flag \<open>ok\<close> of that difference.  A region is enlarged by
  offsetting each of its parts by the first offset of the second call, which is
  \<open>3 * PatternSpacing / 2\<close>.
\<close>

definition supportRegion :: "clipper \<Rightarrow> SupportOptions \<Rightarrow> PartitionedLayer list \<Rightarrow> nat \<Rightarrow> LayerPart list" where
  "supportRegion cl opts layers n =
     sliceList (fst (Difference cl (LayerParts (layers ! (n + 1)))
        (concat (map (\<lambda>part. offsetPart cl part (quot (RoundedDistance opts) 2))
                   (LayerParts (layers ! n))))))"

definition enlargedRegion :: "clipper \<Rightarrow> SupportOptions \<Rightarrow> LayerPart list \<Rightarrow> LayerPart list" where
  "enlargedRegion cl opts region =
     concat (map (\<lambda>part. offsetPart cl part (quot (3 * PatternSpacing opts) 2)) region)"

definition differenceOk :: "clipper \<Rightarrow> SupportOptions \<Rightarrow> PartitionedLayer list \<Rightarrow> nat \<Rightarrow> bool" where
  "differenceOk cl opts layers n =
     snd (Difference cl (LayerParts (layers ! (n + 1)))
        (concat (map (\<lambda>part. offsetPart cl part (quot (RoundedDistance opts) 2))
                   (LayerParts (layers ! n)))))"

text \<open>
  The layer that the detector leaves at index \<open>j\<close>: the enlarged support region found
  \<open>TopGapLayers\<close> layers higher is stored as the attribute \<open>support\<close> when it is not empty.
\<close>

definition detectedLayer :: "clipper \<Rightarrow> SupportOptions \<Rightarrow> PartitionedLayer list \<Rightarrow> nat \<Rightarrow> PartitionedLayer" where
  "detectedLayer cl opts layers j =
     (let support = enlargedRegion cl opts (supportRegion cl opts layers (j + nat (TopGapLayers opts)))
      in if support \<noteq> []
         then setAttribute (layers ! j) ''support'' (AttrLayerParts (Some support))
         else layers ! j)"



text \<open>A layer whose attribute \<open>support\<close> holds a list of layer parts that is not \<open>nil\<close>.\<close>

definition supportSet :: "PartitionedLayer \<Rightarrow> bool" where
  "supportSet layer = (\<exists>parts. Attributes layer ''support'' = Some (AttrLayerParts (Some parts)))"

section \<open>The layer of the slicer\<close>

text \<open>
  Of the slicer's \<open>layer\<close> struct the repair and clean-up steps use the polygons and the
  parallel list of closed flags (the field \<open>closed\<close>, written \<open>closed'\<close> here).  A polygon
  is itself a slice that the code sets to \<open>nil\<close> once it has been merged into another one.
  An index outside a slice makes the Go program panic; the model returns \<open>None\<close> there.
\<close>

record layer =
  polygons :: "Path option list"
  closed' :: "bool list"

definition removeLastPoint :: "layer \<Rightarrow> nat \<Rightarrow> layer option" where
  "removeLastPoint l polyIndex =
     (if polyIndex < length (polygons l)
      then Some (l\<lparr>polygons := (polygons l)
                  [polyIndex := map_option (\<lambda>p. take (length p) p) (polygons l ! polyIndex)]\<rparr>)
      else None)"

definition closedAt :: "layer \<Rightarrow> nat \<Rightarrow> bool option" where
  "closedAt l i = (if i < length (closed' l) then Some (closed' l ! i) else None)"

definition setClosed :: "layer \<Rightarrow> nat \<Rightarrow> bool \<Rightarrow> layer option" where
  "setClosed l i b =
     (if i < length (closed' l) then Some (l\<lparr>closed' := (closed' l)[i := b]\<rparr>) else None)"

text \<open>
  Both places that close a polygon run the same two statements,
  \<open>l.removeLastPoint(i)\<close> and \<open>l.closed[i] = true\<close>.
\<close>

definition closePolygon :: "layer \<Rightarrow> nat \<Rightarrow> layer option" where
  "closePolygon l i = do { l' \<leftarrow> removeLastPoint l i; setClosed l' i True }"

subsection \<open>Joining an open polygon with the best partner\<close>

text \<open>
  The body of \<open>if best > -1\<close> in the repair loop: the points of polygon \<open>best\<close> are appended
  to polygon \<open>i\<close>, the polygon is closed when the loop variable \<open>polygon\<close> (the slice as it
  was before the points were appended) is almost finished within the snap distance of
  100 micrometers, and polygon \<open>best\<close> is erased.
\<close>

fun appendPoints :: "layer \<Rightarrow> nat \<Rightarrow> Path \<Rightarrow> layer option" where
  "appendPoints l i [] = Some l"
| "appendPoints l i (aPointFromBest # rest) =
     (if i < length (polygons l)
      then appendPoints
             (l\<lparr>polygons := (polygons l)
                  [i := Some ((case polygons l ! i of None \<Rightarrow> [] | Some p \<Rightarrow> p) @ [aPointFromBest])]\<rparr>)
             i rest
      else None)"

definition connectPolygons ::
  "(Path \<Rightarrow> Micrometer \<Rightarrow> bool) \<Rightarrow> layer \<Rightarrow> nat \<Rightarrow> Path \<Rightarrow> nat \<Rightarrow> layer option" where
  "connectPolygons iaf l i polygon best =
     (if best < length (polygons l)
      then do {
        l1 \<leftarrow> appendPoints l i (case polygons l ! best of None \<Rightarrow> [] | Some p \<Rightarrow> p);
        l2 \<leftarrow> (if iaf polygon 100 then closePolygon l1 i else Some l1);
        Some (l2\<lparr>polygons := (polygons l2)[best := None]\<rparr>)
      }
      else None)"

subsection \<open>The repair loop\<close>

text \<open>
  The search for the partner of the open polygon \<open>i\<close>: the inner loop over all polygons
  \<open>j\<close>, with the best index so far (\<open>-1\<close> for none) and its score.  Reading the last point
  of an empty polygon or the first point of an empty partner is a panic.
\<close>

fun findBest ::
  "layer \<Rightarrow> nat \<Rightarrow> Path \<Rightarrow> Micrometer \<Rightarrow> nat list \<Rightarrow> int \<Rightarrow> Micrometer
     \<Rightarrow> (int \<times> Micrometer) option" where
  "findBest l i polygon snapDistance [] best bestScore = Some (best, bestScore)"
| "findBest l i polygon snapDistance (j # rest) best bestScore =
     (if j < length (polygons l)
      then (case polygons l ! j of
              None \<Rightarrow> findBest l i polygon snapDistance rest best bestScore
            | Some polygon2 \<Rightarrow>
                (case closedAt l j of
                   None \<Rightarrow> None
                 | Some closedJ \<Rightarrow>
                     if closedJ \<or> i = j
                     then findBest l i polygon snapDistance rest best bestScore
                     else if polygon = [] \<or> polygon2 = [] then None
                     else (let diff = Sub (last polygon) (hd polygon2)
                           in if ShorterThan diff snapDistance
                              then (let score = Size diff - int (length polygon2 * 10)
                                    in if score < bestScore
                                       then findBest l i polygon snapDistance rest (int j) score
                                       else findBest l i polygon snapDistance rest best bestScore)
                              else findBest l i polygon snapDistance rest best bestScore)))
      else None)"

text \<open>
  The loop over the open polygons starts again from the first polygon after every join
  (\<open>goto RerunConnectPolygons\<close>).  It ends because every join erases a polygon: the
  number of polygons that are not \<open>nil\<close> goes down, and between two joins the index goes
  up.
\<close>

definition liveCount :: "layer \<Rightarrow> nat" where
  "liveCount l = length (filter (\<lambda>p. p \<noteq> None) (polygons l))"

lemma removeLastPoint_id:
  "polyIndex < length (polygons l) \<Longrightarrow> removeLastPoint l polyIndex = Some l"
  by (cases "polygons l ! polyIndex")
     (simp_all add: removeLastPoint_def list_update_same_conv[THEN iffD2])

lemma closePolygon_eq:
  "closePolygon l i =
     (if i < length (polygons l) \<and> i < length (closed' l)
      then Some (l\<lparr>closed' := (closed' l)[i := True]\<rparr>) else None)"
  by (cases "polygons l ! i")
     (auto simp add: closePolygon_def removeLastPoint_def setClosed_def
        list_update_same_conv[THEN iffD2])

lemma findBest_found:
  assumes "findBest l i polygon snap js best0 score0 = Some (best, score)"
  shows "best = best0 \<or>
         (0 \<le> best \<and> nat best < length (polygons l) \<and> nat best \<noteq> i \<and>
          polygons l ! nat best \<noteq> None)"
  using assms
proof (induction js arbitrary: best0 score0)
  case Nil
  then show ?case by simp
next
  case (Cons j js)
  show ?case
  proof (cases "j < length (polygons l)")
    case False
    with Cons.prems show ?thesis by simp
  next
    case jl: True
    show ?thesis
    proof (cases "polygons l ! j")
      case None
      with jl Cons.prems Cons.IH show ?thesis by simp
    next
      case (Some polygon2)
      show ?thesis
      proof (cases "closedAt l j")
        case None
        with jl Some Cons.prems show ?thesis by simp
      next
        case cj: (Some closedJ)
        show ?thesis
        proof (cases "\<not> (closedJ \<or> i = j) \<and> polygon \<noteq> [] \<and> polygon2 \<noteq> [] \<and>
                        ShorterThan (Sub (last polygon) (hd polygon2)) snap \<and>
                        Size (Sub (last polygon) (hd polygon2)) - int (length polygon2 * 10) < score0")
          case True
          with jl Some cj Cons.prems have
            "findBest l i polygon snap js (int j)
               (Size (Sub (last polygon) (hd polygon2)) - int (length polygon2 * 10)) = Some (best, score)"
            by (simp add: Let_def)
          from Cons.IH[OF this] True jl Some show ?thesis by auto
        next
          case False
          with jl Some cj Cons.prems have
            "findBest l i polygon snap js best0 score0 = Some (best, score)"
            by (auto simp: Let_def split: if_splits)
          from Cons.IH[OF this] show ?thesis .
        qed
      qed
    qed
  qed
qed

lemma appendPoints_eq:
  "i < length (polygons l) \<Longrightarrow>
   appendPoints l i ps =
     Some (l\<lparr>polygons := (polygons l)
             [i := (if ps = [] then polygons l ! i
                    else Some ((case polygons l ! i of None \<Rightarrow> [] | Some p \<Rightarrow> p) @ ps))]\<rparr>)"
proof (induction ps arbitrary: l)
  case Nil
  then show ?case by (simp add: list_update_same_conv[THEN iffD2])
next
  case (Cons a ps)
  define old where "old = (case polygons l ! i of None \<Rightarrow> [] | Some p \<Rightarrow> p)"
  define l1 where "l1 = l\<lparr>polygons := (polygons l)[i := Some (old @ [a])]\<rparr>"
  have i1: "i < length (polygons l1)" using Cons.prems by (simp add: l1_def)
  have at: "polygons l1 ! i = Some (old @ [a])" using Cons.prems by (simp add: l1_def)
  have "appendPoints l i (a # ps) = appendPoints l1 i ps"
    using Cons.prems by (simp add: l1_def old_def)
  also have "\<dots> = Some (l1\<lparr>polygons := (polygons l1)
             [i := (if ps = [] then polygons l1 ! i
                    else Some ((case polygons l1 ! i of None \<Rightarrow> [] | Some p \<Rightarrow> p) @ ps))]\<rparr>)"
    by (rule Cons.IH[OF i1])
  also have "\<dots> = Some (l\<lparr>polygons := (polygons l)[i := Some (old @ a # ps)]\<rparr>)"
    unfolding at by (simp add: l1_def)
  finally show ?case by (simp add: old_def)
qed

lemma connectPolygons_eq:
  assumes "i < length (polygons l)" "best < length (polygons l)"
    and "polygons l ! i = Some p" "polygons l ! best = Some q"
    and "connectPolygons iaf l i polygon best = Some l1"
  shows "polygons l1 = (polygons l)[i := Some (p @ q), best := None] \<and>
         closed' l1 = (if iaf polygon 100 then (closed' l)[i := True] else closed' l)"
  using assms
  by (cases "q = []")
     (auto simp: connectPolygons_def appendPoints_eq closePolygon_eq
        list_update_same_conv[THEN iffD2] split: if_splits)

lemma live_update_None:
  "b < length xs \<Longrightarrow> xs ! b \<noteq> None \<Longrightarrow>
   length (filter (\<lambda>p. p \<noteq> None) (xs[b := None])) < length (filter (\<lambda>p. p \<noteq> None) xs)"
proof (induction xs arbitrary: b)
  case Nil
  then show ?case by simp
next
  case (Cons x xs)
  then show ?case by (cases b) auto
qed

lemma live_update_Some:
  "i < length xs \<Longrightarrow> xs ! i \<noteq> None \<Longrightarrow>
   length (filter (\<lambda>p. p \<noteq> None) (xs[i := Some y])) = length (filter (\<lambda>p. p \<noteq> None) xs)"
proof (induction xs arbitrary: i)
  case Nil
  then show ?case by simp
next
  case (Cons x xs)
  then show ?case by (cases i) auto
qed

lemma connect_liveCount:
  assumes i: "i < length (polygons l)" and p: "polygons l ! i = Some polygon"
    and f: "findBest l i polygon snap js (- 1) score0 = Some (best, score)"
    and b: "- 1 < best"
    and c: "connectPolygons iaf l i polygon (nat best) = Some l1"
  shows "liveCount l1 < liveCount l"
proof -
  from findBest_found[OF f] b have bl: "nat best < length (polygons l)" and ne: "nat best \<noteq> i"
    and some: "polygons l ! nat best \<noteq> None"
    by auto
  from some obtain q where q: "polygons l ! nat best = Some q" by blast
  from connectPolygons_eq[OF i bl p q c]
  have eq: "polygons l1 = (polygons l)[i := Some (polygon @ q), nat best := None]" by blast
  have "length (filter (\<lambda>p. p \<noteq> None) ((polygons l)[i := Some (polygon @ q), nat best := None]))
        < length (filter (\<lambda>p. p \<noteq> None) ((polygons l)[i := Some (polygon @ q)]))"
    by (rule live_update_None) (use bl ne some in simp_all)
  also have "\<dots> = length (filter (\<lambda>p. p \<noteq> None) (polygons l))"
    by (rule live_update_Some) (use i p in simp_all)
  finally show ?thesis by (simp add: liveCount_def eq)
qed

function connectLoop :: "(Path \<Rightarrow> Micrometer \<Rightarrow> bool) \<Rightarrow> layer \<Rightarrow> nat \<Rightarrow> layer option" where
  "connectLoop iaf l i =
     (if i < length (polygons l)
      then (case polygons l ! i of
              None \<Rightarrow> connectLoop iaf l (Suc i)
            | Some polygon \<Rightarrow>
                (case closedAt l i of
                   None \<Rightarrow> None
                 | Some closedI \<Rightarrow>
                     if closedI then connectLoop iaf l (Suc i)
                     else (case findBest l i polygon 100 [0..<length (polygons l)] (- 1) (100 + 1) of
                             None \<Rightarrow> None
                           | Some (best, bestScore) \<Rightarrow>
                               if best > - 1
                               then (case connectPolygons iaf l i polygon (nat best) of
                                       None \<Rightarrow> None
                                     | Some l1 \<Rightarrow> connectLoop iaf l1 0)
                               else connectLoop iaf l (Suc i))))
      else Some l)"
  by pat_completeness auto
termination
proof (relation "(\<lambda>(iaf, l, i). liveCount l) <*mlex*> measure (\<lambda>(iaf, l, i). length (polygons l) - i)",
    goal_cases)
  case 1
  show ?case by (simp add: wf_mlex)
next
  case (2 iaf l i)
  then show ?case by (auto intro: mlex_less mlex_leq)
next
  case (3 iaf l i polygon closedI)
  then show ?case by (auto intro: mlex_less mlex_leq)
next
  case (4 iaf l i polygon closedI x best bestScore l1)
  then have "liveCount l1 < liveCount l"
    using connect_liveCount[of i l polygon 100 "[0..<length (polygons l)]" "100 + 1" best bestScore iaf l1]
    by simp
  then show ?case by (auto intro: mlex_less)
next
  case (5 iaf l i polygon closedI x best bestScore)
  then show ?case by (auto intro: mlex_less mlex_leq)
qed

declare connectLoop.simps [simp del]

subsection \<open>Dropping open and tiny polygons\<close>

text \<open>
  The inner loop of the clean-up adds up the segment sizes of a polygon and stops early
  once the polygon is closed and the length exceeds the snap distance.  The first point
  is skipped; \<open>prev\<close> is \<open>poly[n-1]\<close>.
\<close>

fun polygonLength ::
  "layer \<Rightarrow> nat \<Rightarrow> Micrometer \<Rightarrow> MicroPoint \<Rightarrow> Path \<Rightarrow> Micrometer \<Rightarrow> Micrometer option" where
  "polygonLength l i snapDistance prev [] len0 = Some len0"
| "polygonLength l i snapDistance prev (point # rest) len0 =
     (let len1 = len0 + Size (Sub point prev)
      in case closedAt l i of
           None \<Rightarrow> None
         | Some c \<Rightarrow>
             if c \<and> len1 > snapDistance then Some len1
             else polygonLength l i snapDistance point rest len1)"

definition measurePolygon :: "layer \<Rightarrow> nat \<Rightarrow> Micrometer \<Rightarrow> Path \<Rightarrow> Micrometer option" where
  "measurePolygon l i snapDistance poly =
     (case poly of [] \<Rightarrow> Some 0 | p0 # rest \<Rightarrow> polygonLength l i snapDistance p0 rest 0)"

text \<open>
  The outer loop runs over the indices of \<open>l.polygons\<close> with the snap distance 1000 and
  collects the polygons that are kept in \<open>clearedPolygons\<close>.
\<close>

fun clearPolygons ::
  "(Path \<Rightarrow> Micrometer \<Rightarrow> bool) \<Rightarrow> nat list \<Rightarrow> layer \<Rightarrow> Path option list
     \<Rightarrow> (layer \<times> Path option list) option" where
  "clearPolygons iaf [] l clearedPolygons = Some (l, clearedPolygons)"
| "clearPolygons iaf (i # rest) l clearedPolygons =
     (if i < length (polygons l)
      then (case polygons l ! i of
              None \<Rightarrow> clearPolygons iaf rest l clearedPolygons
            | Some poly \<Rightarrow> do {
                l1 \<leftarrow> (if iaf poly 1000 then closePolygon l i else Some l);
                len1 \<leftarrow> measurePolygon l1 i 1000 poly;
                keep \<leftarrow> (if polygons l1 ! i \<noteq> None \<and> len1 > 1000 then closedAt l1 i
                         else Some False);
                clearPolygons iaf rest l1
                  (if keep then clearedPolygons @ [polygons l1 ! i] else clearedPolygons)
              })
      else None)"

definition dropPolygons :: "(Path \<Rightarrow> Micrometer \<Rightarrow> bool) \<Rightarrow> layer \<Rightarrow> layer option" where
  "dropPolygons iaf l =
     do {
       (l1, clearedPolygons) \<leftarrow> clearPolygons iaf [0..<length (polygons l)] l [];
       Some (l1\<lparr>polygons := clearedPolygons\<rparr>)
     }"

text \<open>
  What the clean-up decides for index \<open>i\<close>, in the words of the specification: the polygon
  exists, it is marked closed (by the earlier steps or because it is almost finished
  within 1000 micrometers) and its total length exceeds 1000 micrometers.
\<close>

definition markedClosed :: "(Path \<Rightarrow> Micrometer \<Rightarrow> bool) \<Rightarrow> layer \<Rightarrow> nat \<Rightarrow> bool" where
  "markedClosed iaf l i =
     (case polygons l ! i of None \<Rightarrow> False | Some poly \<Rightarrow> closed' l ! i \<or> iaf poly 1000)"

definition keptPolygon :: "(Path \<Rightarrow> Micrometer \<Rightarrow> bool) \<Rightarrow> layer \<Rightarrow> nat \<Rightarrow> bool" where
  "keptPolygon iaf l i =
     (case polygons l ! i of
        None \<Rightarrow> False
      | Some poly \<Rightarrow> markedClosed iaf l i \<and> totalLength poly > 1000)"

text \<open>
  A layer as the stitching leaves it: the closed flags run parallel to the polygons, and
  no polygon is empty (a stitched polygon has at least two points).
\<close>

definition wellFormed :: "layer \<Rightarrow> bool" where
  "wellFormed l = (length (closed' l) = length (polygons l) \<and> Some [] \<notin> set (polygons l))"

text \<open>
  The part of \<open>makePolygons\<close> that follows the stitching of the segments: the repair loop and
  then the clean-up.
\<close>

definition finishPolygons :: "(Path \<Rightarrow> Micrometer \<Rightarrow> bool) \<Rightarrow> layer \<Rightarrow> layer option" where
  "finishPolygons iaf l = do { l1 \<leftarrow> connectLoop iaf l 0; dropPolygons iaf l1 }"

section \<open>The layer renderers\<close>

text \<open>
  The options that the renderers read.  Temperatures, fan speeds and layer counts are
  integers; speeds and lengths in millimeters are floating point numbers that the
  renderers only hand on to the builder, modelled as reals.
\<close>

type_synonym Millimeter = real

record FanSpeedOptions =
  LayerToSpeedLUT :: "int \<rightharpoonup> int"

record FilamentOptions =
  InitialHotEndTemperature :: int
  InitialBedTemperature :: int
  HotEndTemperature :: int
  BedTemperature :: int
  InitialTemperatureLayerCount :: int
  RetractionSpeed :: Millimeter
  RetractionLength :: Millimeter
  FanSpeed :: FanSpeedOptions

record PrintOptions =
  InitialLayerThickness :: Micrometer
  LayerThickness :: Micrometer
  LayerSpeed :: Millimeter
  MoveSpeed :: Millimeter
  IntialLayerSpeed :: Millimeter

record PrinterOptions =
  ExtrusionWidth :: Micrometer

record Options =
  Filament :: FilamentOptions
  Print :: PrintOptions
  Printer :: PrinterOptions

text \<open>
  The G-code builder is not part of the sources at hand.  A renderer acts on it only
  through its methods, so the effect of \<open>Render\<close> is the sequence of the calls it makes, with
  the text of a command or comment formatted as \<open>fmt.Sprintf\<close> does.  \<open>Render\<close> always returns
  the error \<open>nil\<close>.
\<close>

datatype call =
  AddComment string
| AddCommand string
| SetExtrusion Micrometer Micrometer
| SetExtrudeSpeed Millimeter
| SetMoveSpeed Millimeter
| SetRetractionSpeed Millimeter
| SetRetractionAmount Millimeter
| SetExtrudeSpeedOverride Millimeter
| DisableExtrudeSpeedOverride

definition PreLayer_Render :: "int \<Rightarrow> Options \<Rightarrow> call list" where
  "PreLayer_Render layerNr options =
     [AddComment (''LAYER:'' @ showInt layerNr)] @
     (if layerNr = 0
      then [AddComment ''Generated with GoSlice'',
            AddComment ''______________________'',
            AddCommand ''M107 ; disable fan'',
            AddComment ''SET_INITIAL_TEMP'',
            AddCommand (''M104 S'' @ showInt (InitialHotEndTemperature (Filament options))
                          @ '' ; start heating hot end''),
            AddCommand (''M190 S'' @ showInt (InitialBedTemperature (Filament options))
                          @ '' ; heat and wait for bed''),
            AddCommand (''M109 S'' @ showInt (InitialHotEndTemperature (Filament options))
                          @ '' ; wait for hot end temperature''),
            AddComment ''START_GCODE'',
            AddCommand ''G1 Z5 F5000 ; lift nozzle'',
            AddCommand ''G92 E0 ; reset extrusion distance'',
            SetExtrusion (InitialLayerThickness (Print options)) (ExtrusionWidth (Printer options)),
            SetExtrudeSpeed (LayerSpeed (Print options)),
            SetMoveSpeed (MoveSpeed (Print options)),
            SetRetractionSpeed (RetractionSpeed (Filament options)),
            SetRetractionAmount (RetractionLength (Filament options)),
            SetExtrudeSpeedOverride (IntialLayerSpeed (Print options))]
      else if layerNr = 1
      then [SetExtrusion (LayerThickness (Print options)) (ExtrusionWidth (Printer options))]
      else []) @
     (if layerNr > 0
      then [DisableExtrudeSpeedOverride, SetExtrudeSpeed (LayerSpeed (Print options))]
      else []) @
     (case LayerToSpeedLUT (FanSpeed (Filament options)) layerNr of
        Some fanSpeed \<Rightarrow>
          if fanSpeed = 0 then [AddCommand ''M107 ; disable fan'']
          else [AddCommand (''M106 S'' @ showInt fanSpeed @ ''; change fan speed'')]
      | None \<Rightarrow> []) @
     (if layerNr = InitialTemperatureLayerCount (Filament options)
      then [AddComment ''SET_TEMP'',
            AddCommand (''M140 S'' @ showInt (BedTemperature (Filament options))),
            AddCommand (''M104 S'' @ showInt (HotEndTemperature (Filament options)))]
      else [])"

definition PostLayer_Render :: "int \<Rightarrow> int \<Rightarrow> Options \<Rightarrow> call list" where
  "PostLayer_Render layerNr maxLayer options =
     (if layerNr = maxLayer
      then [AddComment ''END_GCODE'',
            SetExtrusion (LayerThickness (Print options)) (ExtrusionWidth (Printer options)),
            AddCommand ''M107 ; disable fan'',
            AddCommand ''M104 S0 ; Set Hot-end to 0C (off)'',
            AddCommand ''M140 S0 ; Set bed to 0C (off)'',
            AddCommand ''G28 X0  ; home X axis to get head out of the way'',
            AddCommand ''M84 ;steppers off'']
      else [])"

text \<open>
  The commands among the calls, in their order, and the test for a home command: the
  text starts with \<open>G28\<close>.
\<close>

fun commands :: "call list \<Rightarrow> string list" where
  "commands [] = []"
| "commands (AddCommand c # rest) = c # commands rest"
| "commands (_ # rest) = commands rest"

definition isHome :: "string \<Rightarrow> bool" where
  "isHome c = (take 3 c = ''G28'')"

text \<open>The commands after the start sequence on layer 0: the fan and the temperature.\<close>

definition fanCommands :: "int \<Rightarrow> Options \<Rightarrow> string list" where
  "fanCommands layerNr options =
     (case LayerToSpeedLUT (FanSpeed (Filament options)) layerNr of
        Some fanSpeed \<Rightarrow>
          if fanSpeed = 0 then [''M107 ; disable fan'']
          else [''M106 S'' @ showInt fanSpeed @ ''; change fan speed'']
      | None \<Rightarrow> [])"

definition temperatureCommands :: "int \<Rightarrow> Options \<Rightarrow> string list" where
  "temperatureCommands layerNr options =
     (if layerNr = InitialTemperatureLayerCount (Filament options)
      then [''M140 S'' @ showInt (BedTemperature (Filament options)),
            ''M104 S'' @ showInt (HotEndTemperature (Filament options))]
      else [])"

text \<open>The type assertion \<open>attr.([]data.LayerPart)\<close> succeeds on exactly these values.\<close>

fun isLayerParts :: "attribute \<Rightarrow> bool" where
  "isLayerParts (AttrLayerParts _) = True"
| "isLayerParts _ = False"

subsection \<open>Concrete inputs\<close>

text \<open>
  A square path with side \<open>a\<close> that returns to its first point, as the stitching leaves
  it: the end point of the last segment repeats the start point of the first.
\<close>

definition square :: "Micrometer \<Rightarrow> Path" where
  "square a = [MicroPoint 0 0, MicroPoint a 0, MicroPoint a a, MicroPoint 0 a, MicroPoint 0 0]"

definition boundaryLayer :: layer where
  "boundaryLayer = \<lparr>polygons = [Some (square 250)], closed' = [True]\<rparr>"

definition brokenLayer :: layer where
  "brokenLayer =
     \<lparr>polygons = [Some [MicroPoint 0 0, MicroPoint 2000 0, MicroPoint 2000 2000],
                  Some (square 250),
                  Some [MicroPoint 2000 2010, MicroPoint 0 2000, MicroPoint 0 50]],
      closed' = [False, True, False]\<rparr>"

definition joined :: Path where
  "joined = [MicroPoint 0 0, MicroPoint 2000 0, MicroPoint 2000 2000,
             MicroPoint 2000 2010, MicroPoint 0 2000, MicroPoint 0 50]"

definition openSquareLayer :: layer where
  "openSquareLayer = \<lparr>polygons = [Some (square 300)], closed' = [False]\<rparr>"

definition partA :: LayerPart where
  "partA = \<lparr>Outline = square 300, Holes = []\<rparr>"

definition layerNoSupport :: PartitionedLayer where
  "layerNoSupport = \<lparr>LayerParts = [partA], Attributes = Map.empty\<rparr>"

definition layerFullSupport :: PartitionedLayer where
  "layerFullSupport =
     \<lparr>LayerParts = [partA], Attributes = [''fullSupport'' \<mapsto> AttrLayerParts (Some [partA])]\<rparr>"

definition layerWrongType :: PartitionedLayer where
  "layerWrongType =
     \<lparr>LayerParts = [partA], Attributes = [''fullSupport'' \<mapsto> AttrPaths (Some [square 300])]\<rparr>"


definition nearPath :: Path where
  "nearPath =
     [MicroPoint 0 0, MicroPoint 100 0, MicroPoint 160 0, MicroPoint 5000 0, MicroPoint 5060 80]"

definition centredSquare :: "Micrometer \<Rightarrow> Path" where
  "centredSquare a = [MicroPoint (- a) (- a), MicroPoint a (- a), MicroPoint a a, MicroPoint (- a) a]"

definition squarePart :: "Micrometer \<Rightarrow> LayerPart" where
  "squarePart a = \<lparr>Outline = centredSquare a, Holes = []\<rparr>"

subsection \<open>A clipping engine for rectangles\<close>

text \<open>
  To run the functions above on concrete inputs, the parameters that stand for the
  clipping library are instantiated with an engine that is exact on axis-parallel
  rectangles around the origin without holes: offsetting by \<open>delta\<close> moves every corner
  by \<open>delta\<close> away from the origin along both axes, and a vertical line is clipped to the
  bounding box of the first clip path.
\<close>

definition growPoint :: "int \<Rightarrow> IntPoint \<Rightarrow> IntPoint" where
  "growPoint d p = IntPoint (IX p + d * sgn (IX p)) (IY p + d * sgn (IY p))"

definition boxOffset :: "IntPath list \<Rightarrow> int \<Rightarrow> PolyNode" where
  "boxOffset paths delta = PolyNode [] (map (\<lambda>p. PolyNode (map (growPoint delta) p) []) paths)"






definition exampleOptions :: Options where
  "exampleOptions =
     \<lparr>Filament = \<lparr>InitialHotEndTemperature = 205, InitialBedTemperature = 60,
                   HotEndTemperature = 200, BedTemperature = 55,
                   InitialTemperatureLayerCount = 3, RetractionSpeed = 30,
                   RetractionLength = 2,
                   FanSpeed = \<lparr>LayerToSpeedLUT = [2 \<mapsto> 255]\<rparr>\<rparr>,
      Print = \<lparr>InitialLayerThickness = 200, LayerThickness = 200, LayerSpeed = 60,
                MoveSpeed = 150, IntialLayerSpeed = 30\<rparr>,
      Printer = \<lparr>ExtrusionWidth = 400\<rparr>\<rparr>"

subsection \<open>A clipper for concentric squares\<close>

text \<open>
  The clipper of the modifiers is instantiated with an engine that is exact on square
  rings around the origin: a part is read as the ring between the half side of its first
  hole (0 when it has none) and the half side of its outline.  Offsetting by \<open>delta\<close> moves
  the outline out and the hole in by \<open>delta\<close>, the difference of two rings is what remains
  inside the hole and outside the outline of the second, and the union of two lists of
  parts that do not overlap is their concatenation.
\<close>

definition halfSide :: "Path \<Rightarrow> int" where
  "halfSide p = foldr max (map X p) 0"

definition ringOf :: "LayerPart \<Rightarrow> int \<times> int" where
  "ringOf part = ((case Holes part of [] \<Rightarrow> 0 | h # _ \<Rightarrow> halfSide h), halfSide (Outline part))"

definition ringPart :: "int \<times> int \<Rightarrow> LayerPart" where
  "ringPart r =
     \<lparr>Outline = centredSquare (snd r),
      Holes = (if fst r = 0 then [] else [centredSquare (fst r)])\<rparr>"

definition ringMinus :: "int \<times> int \<Rightarrow> int \<times> int \<Rightarrow> (int \<times> int) list" where
  "ringMinus p q =
     (if fst p < min (snd p) (fst q) then [(fst p, min (snd p) (fst q))] else []) @
     (if max (fst p) (snd q) < snd p then [(max (fst p) (snd q), snd p)] else [])"

definition ringOffset :: "LayerPart \<Rightarrow> Micrometer \<Rightarrow> LayerPart list" where
  "ringOffset part delta =
     (let inner = (if fst (ringOf part) = 0 then 0 else max 0 (fst (ringOf part) - delta));
          outer = snd (ringOf part) + delta
      in if inner < outer then [ringPart (inner, outer)] else [])"

definition ringDifference :: "LayerPart list \<Rightarrow> LayerPart list \<Rightarrow> LayerPart slice \<times> bool" where
  "ringDifference a b =
     (Some (map ringPart
              (foldl (\<lambda>rs q. concat (map (\<lambda>p. ringMinus p (ringOf q)) rs)) (map ringOf a) b)),
      True)"

definition ringUnion :: "LayerPart list \<Rightarrow> LayerPart list \<Rightarrow> LayerPart slice \<times> bool" where
  "ringUnion a b = (Some (a @ b), True)"

definition ringClipper :: clipper where
  "ringClipper = \<lparr>offsetPart = ringOffset, Union' = ringUnion, Difference = ringDifference\<rparr>"

definition noBrim :: "PartitionedLayer \<Rightarrow> LayerPart slice \<times> string option" where
  "noBrim layer = (None, None)"

definition supportOn :: SupportOptions where
  "supportOn = \<lparr>Enabled = True, TopGapLayers = 0, InterfaceLayers = 1, PatternSpacing = 1000,
                Gap = 600, RoundedDistance = 200\<rparr>"

definition supportOff :: SupportOptions where
  "supportOff = supportOn\<lparr>Enabled := False\<rparr>"

definition overhang :: "PartitionedLayer list" where
  "overhang = [NewPartitionedLayer [squarePart 5000], NewPartitionedLayer [squarePart 10000]]"

definition tower :: "PartitionedLayer list" where
  "tower = [NewPartitionedLayer [squarePart 5000], NewPartitionedLayer [squarePart 5000],
            NewPartitionedLayer [squarePart 10000], NewPartitionedLayer [squarePart 10000]]"

definition towerDetected :: "PartitionedLayer list" where
  "towerDetected =
     [tower ! 0,
      setAttribute (tower ! 1) ''support'' (AttrLayerParts (Some [ringPart (3600, 11500)])),
      tower ! 2, tower ! 3]"

section \<open>Theorems\<close>

lemmas evalGeom = Size_def Size2_def Sub_def isqrt_def sqrtBetween.simps Let_def
  ShorterThan_def ShorterThanOrEqual_def IsAlmostFinished_def square_def


lemmas evalClip = clipperPaths_def clipperPath_def clipperPoint_def microPath_def microPoint_def
  microPaths_def polyTreeToLayerParts_def treeRounds.simps nodeToPart_def grandChilds_def
  boxOffset_def growPoint_def centredSquare_def squarePart_def quot_def


lemmas evalRing = halfSide_def ringOf_def ringPart_def ringMinus_def ringOffset_def
  ringDifference_def ringUnion_def ringClipper_def noBrim_def supportOn_def supportOff_def
  overhang_def tower_def NewPartitionedLayer_def squarePart_def centredSquare_def quot_def sliceList_def

lemmas evalSupport = supportDetector_def supportGenerator_def generateSupport_def supportAreas_def
  interfaceAreas_def saveSupport_def PartsAttribute_def detectSupport_def enlargeSupport_def
  InsetLayerFirst_def ToOneDimension_def newExtendedLayer_def setAttribute_def len_def Let_def
  towerDetected_def

subsection \<open>Shared facts about the support modifiers\<close>

lemma detectorLoop_disabled:
  "\<not> Enabled opts \<Longrightarrow> detectorLoop cl opts ns layers = Some (layers, None)"
  by (cases ns) simp_all

lemma generatorLoop_disabled:
  "\<not> Enabled opts \<Longrightarrow> generatorLoop cl brim opts ns lastSupport layers = Some (layers, None)"
  by (cases ns) simp_all

lemma newExtendedLayer_id: "newExtendedLayer layer = layer"
  by (simp add: newExtendedLayer_def)

lemma InsetLayerFirst_one:
  "ToOneDimension (InsetLayerFirst cl parts offset 1 firstOffset)
     = concat (map (\<lambda>part. offsetPart cl part firstOffset) parts)"
  by (simp add: ToOneDimension_def InsetLayerFirst_def comp_def concat_map_singleton)

subsection \<open>The geometry primitives\<close>

text \<open>
  The bisection finds the integer square root, so \<open>Size\<close> is the Euclidean length cut to
  whole micrometers, and \<open>ShorterThanOrEqual\<close> compares the exact Euclidean length with the
  distance.
\<close>

lemma sqrtBetween_correct:
  assumes "lo * lo \<le> n" "n < hi * hi" "lo < hi"
  shows "sqrtBetween n lo hi * sqrtBetween n lo hi \<le> n \<and>
         n < Suc (sqrtBetween n lo hi) * Suc (sqrtBetween n lo hi)"
  using assms
proof (induction n lo hi rule: sqrtBetween.induct)
  case (1 n lo hi)
  show ?case
  proof (cases "hi \<le> Suc lo")
    case True
    with "1.prems" have "hi = Suc lo" by simp
    with True "1.prems" show ?thesis by (subst (1 2 3 4) sqrtBetween.simps) simp
  next
    case False
    define mid where "mid = (lo + hi) div 2"
    have lm: "lo < mid" and mh: "mid < hi" using False by (simp_all add: mid_def)
    show ?thesis
    proof (cases "mid * mid \<le> n")
      case True
      from "1.IH"(1)[OF False mid_def True True "1.prems"(2) mh]
      show ?thesis using False True by (subst (1 2 3 4) sqrtBetween.simps) (simp add: mid_def Let_def)
    next
      case nle: False
      then have "n < mid * mid" by simp
      from "1.IH"(2)[OF False mid_def nle "1.prems"(1) this lm]
      show ?thesis using False nle by (subst (1 2 3 4) sqrtBetween.simps) (simp add: mid_def Let_def)
    qed
  qed
qed

lemma isqrt_correct: "isqrt n * isqrt n \<le> n \<and> n < Suc (isqrt n) * Suc (isqrt n)"
  unfolding isqrt_def by (rule sqrtBetween_correct) simp_all

lemma Size_floor:
  "0 \<le> Size v \<and> Size v * Size v \<le> Size2 v \<and> Size2 v < (Size v + 1) * (Size v + 1)"
proof -
  have nn: "0 \<le> Size2 v" by (simp add: Size2_def)
  from isqrt_correct[of "nat (Size2 v)"]
  have a: "int (isqrt (nat (Size2 v)) * isqrt (nat (Size2 v))) \<le> Size2 v"
    and b: "Size2 v < int (Suc (isqrt (nat (Size2 v))) * Suc (isqrt (nat (Size2 v))))"
    using nn by linarith+
  show ?thesis using a b by (simp add: Size_def algebra_simps)
qed

lemma ShorterThanOrEqual_distance:
  assumes "0 \<le> d"
  shows "ShorterThanOrEqual v d \<longleftrightarrow> sqrt (real_of_int (Size2 v)) \<le> real_of_int d"
proof -
  have nn: "0 \<le> Size2 v" by (simp add: Size2_def)
  have "sqrt (real_of_int (Size2 v)) \<le> real_of_int d
          \<longleftrightarrow> real_of_int (Size2 v) \<le> (real_of_int d)\<^sup>2"
    using assms nn by (metis of_int_0_le_iff real_sqrt_le_iff real_sqrt_abs abs_of_nonneg real_sqrt_pow2 real_sqrt_ge_0_iff)
  also have "\<dots> \<longleftrightarrow> Size2 v \<le> d * d"
    by (metis of_int_le_iff of_int_mult power2_eq_square)
  finally show ?thesis by (simp add: ShorterThanOrEqual_def)
qed

subsection \<open>The clip region of Fill\<close>






subsection \<open>The offsets of Inset\<close>

lemma insetLoop_map:
  "insetLoop execute2 part offset insetCount insetNr insets =
     insets @ map (\<lambda>i. polyTreeToLayerParts
                          (execute2 (clipperPaths [Outline part] @ clipperPaths (Holes part))
                             (insetDelta offset i)))
                [insetNr..<nat insetCount]"
proof (induction execute2 part offset insetCount insetNr insets rule: insetLoop.induct)
  case (1 execute2 part offset insetCount insetNr insets)
  show ?case
  proof (cases "int insetNr < insetCount")
    case True
    then have "[insetNr..<nat insetCount] = insetNr # [Suc insetNr..<nat insetCount]"
      by (simp add: upt_conv_Cons)
    with True "1.IH" show ?thesis
      by (subst insetLoop.simps) simp
  next
    case False
    then have "[insetNr..<nat insetCount] = []" by simp
    with False show ?thesis by (subst insetLoop.simps) simp
  qed
qed

text \<open>
  Claim C2, as amended.  For every layer part, offset \<open>o\<close> and inset count \<open>k\<close>, \<open>Inset\<close>
  returns \<open>k\<close> insets (none when \<open>k\<close> is not positive), and inset number \<open>i\<close> is the
  result of the offset engine for the outline and the holes of the part with the delta
  \<open>-(o * i) - o / 2\<close>, the division truncating towards zero: inset 0 lies \<open>o / 2\<close> inside
  the contour and every further inset one more \<open>o\<close> inside.  A positive offset gives a
  delta that is not positive (the part shrinks), a negative offset one that is not
  negative (the part grows).
\<close>

theorem Inset_deltas:
  "Inset execute2 part offset insetCount =
     map (\<lambda>i. polyTreeToLayerParts
                 (execute2 (clipperPaths [Outline part] @ clipperPaths (Holes part))
                    (- (offset * int i) - quot offset 2)))
         [0..<nat insetCount] \<and>
   length (Inset execute2 part offset insetCount) = nat insetCount \<and>
   (0 < offset \<longrightarrow> (\<forall>i. - (offset * int i) - quot offset 2 \<le> 0)) \<and>
   (offset < 0 \<longrightarrow> (\<forall>i. 0 \<le> - (offset * int i) - quot offset 2))"
proof -
  have pos: "- (offset * int i) - quot offset 2 \<le> 0" if "0 < offset" for i
  proof -
    have "0 \<le> quot offset 2" using that by (simp add: quot_def pos_imp_zdiv_nonneg_iff)
    moreover have "0 \<le> offset * int i" using that by simp
    ultimately show ?thesis by linarith
  qed
  have neg: "0 \<le> - (offset * int i) - quot offset 2" if "offset < 0" for i
  proof -
    have "quot offset 2 \<le> 0" using that by (simp add: quot_def pos_imp_zdiv_nonneg_iff)
    moreover have "offset * int i \<le> 0" using that by (simp add: mult_le_0_iff)
    ultimately show ?thesis by linarith
  qed
  have "Inset execute2 part offset insetCount =
     map (\<lambda>i. polyTreeToLayerParts
                 (execute2 (clipperPaths [Outline part] @ clipperPaths (Holes part))
                    (- (offset * int i) - quot offset 2)))
         [0..<nat insetCount]"
    by (simp add: Inset_def insetLoop_map insetDelta_def)
  then show ?thesis using pos neg by simp
qed

theorem Inset_deltas_witness:
  "Inset boxOffset (squarePart 5000) 400 3 =
     [[squarePart 4800], [squarePart 4400], [squarePart 4000]] \<and>
   - (400 * int 1) - quot 400 2 = - 600"
  using Inset_deltas[of boxOffset "squarePart 5000" 400 3]
  by (simp add: upt_rec evalClip)

text \<open>
  The claim as stated fails: with the offset 400, inset 1 of a square of half side 5000
  is the square of half side 4400, neither of the squares at the distance \<open>400 * 1\<close>;
  and the negative offset \<open>-400\<close> makes the part grow.
\<close>

theorem Inset_offset_counterexample:
  "Inset boxOffset (squarePart 5000) 400 2 ! 1 = [squarePart 4400] \<and>
   polyTreeToLayerParts (boxOffset (clipperPaths [centredSquare 5000]) (- (400 * 1))) = [squarePart 4600] \<and>
   polyTreeToLayerParts (boxOffset (clipperPaths [centredSquare 5000]) (400 * 1)) = [squarePart 5400] \<and>
   squarePart 4400 \<noteq> squarePart 4600 \<and> squarePart 4400 \<noteq> squarePart 5400 \<and>
   Inset boxOffset (squarePart 5000) (- 400) 1 ! 0 = [squarePart 5200]"
  by (simp add: Inset_def insetLoop.simps insetDelta_def evalClip)

subsection \<open>The point filter of GenerateLayerParts\<close>

lemma filterPoints_keptAfter:
  "0 \<notin> set js \<Longrightarrow> ks \<noteq> [] \<Longrightarrow>
   filterPoints ps (map (\<lambda>j. (j, ps ! j)) js) (last ks) (map (\<lambda>i. clipperPoint (ps ! i)) ks)
     = map (\<lambda>i. clipperPoint (ps ! i)) (keptAfter ps js ks)"
proof (induction js arbitrary: ks)
  case Nil
  then show ?case by simp
next
  case (Cons j js)
  from Cons.prems have j: "j \<noteq> 0" and js: "0 \<notin> set js" by auto
  show ?case
  proof (cases "ShorterThanOrEqual (Sub (ps ! j) (ps ! last ks)) 100")
    case True
    with j Cons.IH[OF js Cons.prems(2)] show ?thesis by simp
  next
    case False
    have "filterPoints ps (map (\<lambda>j. (j, ps ! j)) js) (last (ks @ [j]))
            (map (\<lambda>i. clipperPoint (ps ! i)) (ks @ [j]))
          = map (\<lambda>i. clipperPoint (ps ! i)) (keptAfter ps js (ks @ [j]))"
      by (rule Cons.IH[OF js]) simp
    with False j show ?thesis by simp
  qed
qed

lemma enumerate_nth: "enumerate 0 ps = map (\<lambda>j. (j, ps ! j)) [0..<length ps]"
  by (rule nth_equalityI) (simp_all add: nth_enumerate_eq)

lemma filteredPath_keptAfter:
  "filteredPath ps =
     (if ps = [] then [] else map (\<lambda>i. clipperPoint (ps ! i)) (keptAfter ps [1..<length ps] [0]))"
proof (cases "ps = []")
  case True
  then show ?thesis by (simp add: filteredPath_def)
next
  case False
  then have up: "[0..<length ps] = 0 # [1..<length ps]"
    by (simp add: upt_conv_Cons)
  have "filterPoints ps (map (\<lambda>j. (j, ps ! j)) [1..<length ps]) (last [0])
          (map (\<lambda>i. clipperPoint (ps ! i)) [0])
        = map (\<lambda>i. clipperPoint (ps ! i)) (keptAfter ps [1..<length ps] [0])"
    by (rule filterPoints_keptAfter) simp_all
  with False show ?thesis
    by (simp add: filteredPath_def enumerate_nth up del: upt_Suc)
qed

lemma filter_less_prefix:
  assumes "\<forall>i\<in>set ks. i < (j::nat)" "\<forall>i\<in>set extra. j \<le> i"
  shows "filter (\<lambda>i. i < j) (ks @ extra) = ks"
proof -
  have "filter (\<lambda>i. i < j) ks = ks" using assms(1) by (simp add: filter_id_conv)
  moreover have "filter (\<lambda>i. i < j) extra = []"
    unfolding filter_empty_conv
  proof
    fix x assume "x \<in> set extra"
    with assms(2) have "j \<le> x" by blast
    then show "\<not> x < j" by simp
  qed
  ultimately show ?thesis by simp
qed

lemma keptAfter_char:
  assumes "sorted_wrt (<) (ks @ js)" "ks \<noteq> []"
  shows "\<exists>extra. keptAfter ps js ks = ks @ extra \<and> set extra \<subseteq> set js \<and>
           sorted_wrt (<) (ks @ extra) \<and>
           (\<forall>j\<in>set js. j \<notin> set (ks @ extra) \<longleftrightarrow>
              ShorterThanOrEqual (Sub (ps ! j) (ps ! last (filter (\<lambda>i. i < j) (ks @ extra)))) 100)"
  using assms
proof (induction js arbitrary: ks)
  case Nil
  then show ?case by simp
next
  case (Cons j js)
  from Cons.prems(1) have ksj: "\<forall>i\<in>set ks. i < j" and jjs: "\<forall>i\<in>set js. j < i"
    and sks: "sorted_wrt (<) ks" and sjs: "sorted_wrt (<) js"
    and ksjs: "\<forall>i\<in>set ks. \<forall>i'\<in>set js. i < i'"
    by (auto simp: sorted_wrt_append)
  show ?case
  proof (cases "ShorterThanOrEqual (Sub (ps ! j) (ps ! last ks)) 100")
    case True
    have s: "sorted_wrt (<) (ks @ js)" using sks sjs ksjs by (simp add: sorted_wrt_append)
    from Cons.IH[OF s Cons.prems(2)] obtain extra where
      e: "keptAfter ps js ks = ks @ extra" "set extra \<subseteq> set js" "sorted_wrt (<) (ks @ extra)"
      and c: "\<forall>j\<in>set js. j \<notin> set (ks @ extra) \<longleftrightarrow>
              ShorterThanOrEqual (Sub (ps ! j) (ps ! last (filter (\<lambda>i. i < j) (ks @ extra)))) 100"
      by blast
    have f: "filter (\<lambda>i. i < j) (ks @ extra) = ks"
      by (rule filter_less_prefix) (use ksj jjs e(2) in \<open>auto simp: less_imp_le\<close>)
    have jn: "j \<notin> set (ks @ extra)" using ksj jjs e(2) by auto
    have "keptAfter ps (j # js) ks = ks @ extra" using True e(1) by simp
    moreover have "set extra \<subseteq> set (j # js)" using e(2) by auto
    moreover have "\<forall>j'\<in>set (j # js). j' \<notin> set (ks @ extra) \<longleftrightarrow>
              ShorterThanOrEqual (Sub (ps ! j') (ps ! last (filter (\<lambda>i. i < j') (ks @ extra)))) 100"
      using c jn f True by simp
    ultimately show ?thesis using e(3) by blast
  next
    case False
    have s: "sorted_wrt (<) ((ks @ [j]) @ js)"
      using sks sjs ksjs ksj jjs by (auto simp: sorted_wrt_append)
    have ne: "ks @ [j] \<noteq> []" by simp
    from Cons.IH[OF s ne] obtain extra where
      e: "keptAfter ps js (ks @ [j]) = (ks @ [j]) @ extra" "set extra \<subseteq> set js"
         "sorted_wrt (<) ((ks @ [j]) @ extra)"
      and c: "\<forall>j'\<in>set js. j' \<notin> set ((ks @ [j]) @ extra) \<longleftrightarrow>
              ShorterThanOrEqual (Sub (ps ! j') (ps ! last (filter (\<lambda>i. i < j') ((ks @ [j]) @ extra)))) 100"
      by blast
    have f: "filter (\<lambda>i. i < j) (ks @ (j # extra)) = ks"
      by (rule filter_less_prefix) (use ksj jjs e(2) in \<open>auto simp: less_imp_le\<close>)
    have "keptAfter ps (j # js) ks = ks @ (j # extra)" using False e(1) by simp
    moreover have "set (j # extra) \<subseteq> set (j # js)" using e(2) by auto
    moreover have "sorted_wrt (<) (ks @ (j # extra))" using e(3) by simp
    moreover have "\<forall>j'\<in>set (j # js). j' \<notin> set (ks @ (j # extra)) \<longleftrightarrow>
              ShorterThanOrEqual (Sub (ps ! j') (ps ! last (filter (\<lambda>i. i < j') (ks @ (j # extra))))) 100"
      using c f False by simp
    ultimately show ?thesis by blast
  qed
qed

text \<open>
  Claim C3, as amended.  In \<open>GenerateLayerParts\<close> the path handed to the clipping library
  consists of the points of the input polygon at the kept indices \<open>ks\<close>, in their order.
  The first point is always kept.  Every other point \<open>j\<close> is dropped exactly when its
  distance to the point kept last before it (the last kept index below \<open>j\<close>) is at most
  100 micrometers, that is when \<open>ShorterThanOrEqual\<close> holds; a point farther than 100
  micrometers away is kept.
\<close>

theorem filteredPath_kept:
  "\<exists>ks. filteredPath ps = map (\<lambda>i. clipperPoint (ps ! i)) ks \<and>
        sorted_wrt (<) ks \<and> set ks \<subseteq> {..<length ps} \<and>
        (ps \<noteq> [] \<longrightarrow> hd ks = 0) \<and>
        (\<forall>j. 0 < j \<and> j < length ps \<longrightarrow>
           (j \<notin> set ks \<longleftrightarrow>
              ShorterThanOrEqual (Sub (ps ! j) (ps ! last (filter (\<lambda>i. i < j) ks))) 100))"
proof (cases "ps = []")
  case True
  then show ?thesis by (simp add: filteredPath_def)
next
  case False
  have s: "sorted_wrt (<) ([0] @ [1..<length ps])"
    by (simp add: sorted_wrt_append)
  from keptAfter_char[OF s, of ps] obtain extra where
    e: "keptAfter ps [1..<length ps] [0] = [0] @ extra" "set extra \<subseteq> set [1..<length ps]"
       "sorted_wrt (<) ([0] @ extra)"
    and c: "\<forall>j\<in>set [1..<length ps]. j \<notin> set ([0] @ extra) \<longleftrightarrow>
              ShorterThanOrEqual (Sub (ps ! j) (ps ! last (filter (\<lambda>i. i < j) ([0] @ extra)))) 100"
    by blast
  have "filteredPath ps = map (\<lambda>i. clipperPoint (ps ! i)) ([0] @ extra)"
    using False e(1) by (simp add: filteredPath_keptAfter)
  moreover have "set ([0] @ extra) \<subseteq> {..<length ps}" using e(2) False by auto
  moreover have "\<forall>j. 0 < j \<and> j < length ps \<longrightarrow>
           (j \<notin> set ([0] @ extra) \<longleftrightarrow>
              ShorterThanOrEqual (Sub (ps ! j) (ps ! last (filter (\<lambda>i. i < j) ([0] @ extra)))) 100)"
    using c by simp
  moreover have "hd ([0] @ extra) = 0" by simp
  ultimately show ?thesis using e(3) by blast
qed

text \<open>
  The claim as stated fails at the boundary: a point at the distance of exactly 100
  micrometers from the kept point is dropped, although it is not closer than 100.
\<close>

theorem filteredPath_boundary_counterexample:
  "filteredPath [MicroPoint 0 0, MicroPoint 100 0, MicroPoint 5000 0]
     = [IntPoint 0 0, IntPoint 5000 0] \<and>
   Size (Sub (MicroPoint 100 0) (MicroPoint 0 0)) = 100 \<and>
   \<not> ShorterThan (Sub (MicroPoint 100 0) (MicroPoint 0 0)) 100"
  by (simp add: filteredPath_def enumerate_eq_zip upt_rec clipperPoint_def evalGeom)

theorem filteredPath_kept_witness:
  "(\<exists>ks. filteredPath nearPath = map (\<lambda>i. clipperPoint (nearPath ! i)) ks \<and>
        sorted_wrt (<) ks \<and> set ks \<subseteq> {..<length nearPath}) \<and>
   filteredPath nearPath = [IntPoint 0 0, IntPoint 160 0, IntPoint 5000 0] \<and>
   \<not> ShorterThanOrEqual (Sub (nearPath ! 2) (nearPath ! 0)) 100 \<and>
   ShorterThanOrEqual (Sub (nearPath ! 4) (nearPath ! 3)) 100"
proof -
  have e: "filteredPath nearPath = [IntPoint 0 0, IntPoint 160 0, IntPoint 5000 0]"
    by (simp add: nearPath_def filteredPath_def enumerate_eq_zip upt_rec clipperPoint_def evalGeom)
  from filteredPath_kept[of nearPath] obtain ks where
    "filteredPath nearPath = map (\<lambda>i. clipperPoint (nearPath ! i)) ks"
    "sorted_wrt (<) ks" "set ks \<subseteq> {..<length nearPath}"
    by blast
  then have "\<exists>ks. filteredPath nearPath = map (\<lambda>i. clipperPoint (nearPath ! i)) ks \<and>
        sorted_wrt (<) ks \<and> set ks \<subseteq> {..<length nearPath}"
    by blast
  moreover have "\<not> ShorterThanOrEqual (Sub (nearPath ! 2) (nearPath ! 0)) 100"
    and "ShorterThanOrEqual (Sub (nearPath ! 4) (nearPath ! 3)) 100"
    by (simp_all add: nearPath_def evalGeom)
  ultimately show ?thesis using e by blast
qed

subsection \<open>Dropping open and tiny polygons\<close>

lemma Size_nonneg: "0 \<le> Size v"
  by (simp add: Size_def)

lemma polygonLength_total:
  assumes "closedAt l i = Some c" "0 \<le> acc"
  shows "\<exists>len. polygonLength l i snap prev rest acc = Some len \<and>
           ((c \<and> len > snap) \<longleftrightarrow> (c \<and> acc + totalLength (prev # rest) > snap)) \<and>
           (\<not> c \<longrightarrow> len = acc + totalLength (prev # rest))"
  using assms
proof (induction rest arbitrary: prev acc)
  case Nil
  then show ?case by simp
next
  case (Cons point rest)
  have nn: "0 \<le> Size (Sub point prev)" by (rule Size_nonneg)
  have tl: "0 \<le> totalLength (point # rest)"
    by (induction "point # rest" arbitrary: point rest rule: totalLength.induct) (auto simp: Size_nonneg)
  show ?case
  proof (cases "c \<and> acc + Size (Sub point prev) > snap")
    case True
    with Cons.prems tl show ?thesis by (auto simp: Let_def)
  next
    case False
    from Cons.IH[of "acc + Size (Sub point prev)" point] Cons.prems nn
    obtain len where "polygonLength l i snap point rest (acc + Size (Sub point prev)) = Some len"
      "(c \<and> len > snap) \<longleftrightarrow> (c \<and> acc + Size (Sub point prev) + totalLength (point # rest) > snap)"
      "\<not> c \<longrightarrow> len = acc + Size (Sub point prev) + totalLength (point # rest)"
      by auto
    with False Cons.prems show ?thesis by (auto simp: Let_def add.assoc)
  qed
qed

lemma measurePolygon_total:
  assumes "closedAt l i = Some c"
  shows "\<exists>len. measurePolygon l i snap poly = Some len \<and>
           ((c \<and> len > snap) \<longleftrightarrow> (c \<and> totalLength poly > snap)) \<and>
           (\<not> c \<longrightarrow> len = totalLength poly)"
proof (cases poly)
  case Nil
  then show ?thesis by (simp add: measurePolygon_def)
next
  case (Cons p0 rest)
  with polygonLength_total[OF assms, of 0 snap p0 rest] show ?thesis
    by (simp add: measurePolygon_def)
qed



lemma keptPolygon_cong:
  assumes "polygons l1 = polygons l" "closed' l1 ! j = closed' l ! j"
  shows "keptPolygon iaf l1 j = keptPolygon iaf l j"
  using assms by (simp add: keptPolygon_def markedClosed_def split: option.splits)

lemma clearPolygons_step:
  assumes len: "length (closed' l) = length (polygons l)"
    and i: "i < length (polygons l)"
    and poly: "polygons l ! i = Some poly"
  shows "\<exists>l1. clearPolygons iaf (i # rest) l cleared =
            clearPolygons iaf rest l1
              (if keptPolygon iaf l i then cleared @ [polygons l ! i] else cleared) \<and>
          polygons l1 = polygons l \<and> length (closed' l1) = length (closed' l) \<and>
          (\<forall>j. j \<noteq> i \<longrightarrow> closed' l1 ! j = closed' l ! j)"
proof -
  define l1 where "l1 = (if iaf poly 1000 then l\<lparr>closed' := (closed' l)[i := True]\<rparr> else l)"
  define c where "c = (closed' l ! i \<or> iaf poly 1000)"
  have step1: "(if iaf poly 1000 then closePolygon l i else Some l) = Some l1"
    using len i by (simp add: closePolygon_eq l1_def)
  have p1: "polygons l1 = polygons l" and cl1: "length (closed' l1) = length (closed' l)"
    by (simp_all add: l1_def)
  have other: "\<forall>j. j \<noteq> i \<longrightarrow> closed' l1 ! j = closed' l ! j"
    by (simp add: l1_def)
  have cAt: "closedAt l1 i = Some c"
    using len i by (auto simp: closedAt_def l1_def c_def)
  from measurePolygon_total[OF cAt, of 1000 poly]
  obtain len1 where m: "measurePolygon l1 i 1000 poly = Some len1"
    and iff: "(c \<and> len1 > 1000) \<longleftrightarrow> (c \<and> totalLength poly > 1000)"
    by blast
  have keep: "(if Some poly \<noteq> None \<and> len1 > 1000 then closedAt l1 i else Some False)
                = Some (keptPolygon iaf l i)"
    using iff poly p1 cAt by (auto simp: keptPolygon_def markedClosed_def c_def)
  have "clearPolygons iaf (i # rest) l cleared =
          clearPolygons iaf rest l1
            (if keptPolygon iaf l i then cleared @ [polygons l ! i] else cleared)"
    by (simp only: clearPolygons.simps i if_True poly option.case step1 Option.bind.simps m keep p1)
  with p1 cl1 other show ?thesis by blast
qed

lemma clearPolygons_filter:
  assumes "length (closed' l) = length (polygons l)"
    and "distinct is" and "\<forall>i\<in>set is. i < length (polygons l)"
  shows "\<exists>l'. clearPolygons iaf is l cleared =
            Some (l', cleared @ map (\<lambda>i. polygons l ! i) (filter (keptPolygon iaf l) is))"
  using assms
proof (induction "is" arbitrary: l cleared)
  case Nil
  then show ?case by simp
next
  case (Cons i rest)
  have i: "i < length (polygons l)" using Cons.prems by simp
  show ?case
  proof (cases "polygons l ! i")
    case None
    then have nk: "\<not> keptPolygon iaf l i" by (simp add: keptPolygon_def)
    have d: "distinct rest" and b: "\<forall>i\<in>set rest. i < length (polygons l)"
      using Cons.prems by simp_all
    from Cons.IH[OF Cons.prems(1) d b, of cleared]
    obtain l' where "clearPolygons iaf rest l cleared =
        Some (l', cleared @ map (\<lambda>i. polygons l ! i) (filter (keptPolygon iaf l) rest))"
      by blast
    then have "clearPolygons iaf (i # rest) l cleared =
        Some (l', cleared @ map (\<lambda>i. polygons l ! i) (filter (keptPolygon iaf l) (i # rest)))"
      using None i nk by (simp only: clearPolygons.simps if_True option.case filter.simps if_False)
    then show ?thesis by (rule exI)
  next
    case (Some poly)
    from clearPolygons_step[OF Cons.prems(1) i Some, of iaf rest cleared]
    obtain l1 where st: "clearPolygons iaf (i # rest) l cleared =
            clearPolygons iaf rest l1
              (if keptPolygon iaf l i then cleared @ [polygons l ! i] else cleared)"
      and p1: "polygons l1 = polygons l" and cl1: "length (closed' l1) = length (closed' l)"
      and other: "\<forall>j. j \<noteq> i \<longrightarrow> closed' l1 ! j = closed' l ! j"
      by blast
    have same: "filter (keptPolygon iaf l1) rest = filter (keptPolygon iaf l) rest"
    proof (rule filter_cong[OF refl])
      fix j assume "j \<in> set rest"
      with Cons.prems(2) have "j \<noteq> i" by auto
      with other have "closed' l1 ! j = closed' l ! j" by blast
      then show "keptPolygon iaf l1 j = keptPolygon iaf l j"
        by (rule keptPolygon_cong[OF p1])
    qed
    have d: "distinct rest" and b: "\<forall>i\<in>set rest. i < length (polygons l1)"
      and e: "length (closed' l1) = length (polygons l1)"
      using Cons.prems p1 cl1 by simp_all
    from Cons.IH[OF e d b, of "if keptPolygon iaf l i then cleared @ [polygons l ! i] else cleared"]
    obtain l' where "clearPolygons iaf rest l1
              (if keptPolygon iaf l i then cleared @ [polygons l ! i] else cleared) =
        Some (l', (if keptPolygon iaf l i then cleared @ [polygons l ! i] else cleared)
                  @ map (\<lambda>i. polygons l1 ! i) (filter (keptPolygon iaf l1) rest))"
      by blast
    then have "clearPolygons iaf (i # rest) l cleared =
        Some (l', cleared @ map (\<lambda>i. polygons l ! i) (filter (keptPolygon iaf l) (i # rest)))"
      unfolding st same p1 by (cases "keptPolygon iaf l i") simp_all
    then show ?thesis by (rule exI)
  qed
qed



lemma dropPolygons_filter:
  assumes "length (closed' l) = length (polygons l)"
  shows "\<exists>l'. dropPolygons iaf l = Some l' \<and>
           polygons l' = map (\<lambda>i. polygons l ! i)
                           (filter (keptPolygon iaf l) [0..<length (polygons l)])"
proof -
  have d: "distinct [0..<length (polygons l)]"
    and b: "\<forall>i\<in>set [0..<length (polygons l)]. i < length (polygons l)"
    by simp_all
  from clearPolygons_filter[OF assms d b, of iaf "[]"]
  obtain l1 where "clearPolygons iaf [0..<length (polygons l)] l [] =
      Some (l1, [] @ map (\<lambda>i. polygons l ! i) (filter (keptPolygon iaf l) [0..<length (polygons l)]))"
    by blast
  then show ?thesis by (simp add: dropPolygons_def)
qed

lemma findBest_total:
  assumes "wellFormed l" "polygon \<noteq> []"
  shows "findBest l i polygon snap js best0 score0 \<noteq> None \<or> (\<exists>j\<in>set js. length (polygons l) \<le> j)"
  using assms
proof (induction js arbitrary: best0 score0)
  case Nil
  then show ?case by simp
next
  case (Cons j js)
  show ?case
  proof (cases "j < length (polygons l)")
    case False
    then show ?thesis by auto
  next
    case jl: True
    then have cj: "closedAt l j = Some (closed' l ! j)"
      using Cons.prems by (simp add: closedAt_def wellFormed_def)
    show ?thesis
    proof (cases "polygons l ! j")
      case None
      with jl Cons.IH[OF Cons.prems] show ?thesis by auto
    next
      case (Some polygon2)
      then have "Some polygon2 \<in> set (polygons l)" using jl by (metis nth_mem)
      then have ne: "polygon2 \<noteq> []" using Cons.prems by (auto simp: wellFormed_def)
      from jl Some cj ne Cons.prems(2) Cons.IH[OF Cons.prems]
      show ?thesis by (auto simp: Let_def)
    qed
  qed
qed

lemma connectPolygons_total:
  assumes "wellFormed l" "i < length (polygons l)" "best < length (polygons l)" "best \<noteq> i"
    and "polygons l ! i = Some p" "polygons l ! best = Some q"
  shows "\<exists>l1. connectPolygons iaf l i polygon best = Some l1 \<and> wellFormed l1"
proof -
  have pne: "p \<noteq> []" using assms(1,2,5) by (metis nth_mem wellFormed_def)
  define l1 where "l1 = l\<lparr>polygons := (polygons l)[i := Some (p @ q), best := None],
                          closed' := (if iaf polygon 100 then (closed' l)[i := True] else closed' l)\<rparr>"
  have c: "connectPolygons iaf l i polygon best = Some l1"
    using assms
    by (cases "q = []")
       (auto simp: connectPolygons_def appendPoints_eq closePolygon_eq wellFormed_def l1_def
          list_update_same_conv[THEN iffD2])
  have "Some [] \<notin> set ((polygons l)[i := Some (p @ q), best := None])"
  proof
    assume "Some [] \<in> set ((polygons l)[i := Some (p @ q), best := None])"
    then have "Some [] \<in> insert None (set ((polygons l)[i := Some (p @ q)]))"
      using set_update_subset_insert by fastforce
    then have "Some [] \<in> insert (Some (p @ q)) (set (polygons l))"
      using set_update_subset_insert by fastforce
    with pne assms(1) show False by (auto simp: wellFormed_def)
  qed
  then have "wellFormed l1" using assms(1) by (simp add: wellFormed_def l1_def)
  with c show ?thesis by blast
qed

lemma connectLoop_total:
  assumes "wellFormed l"
  shows "\<exists>l1. connectLoop iaf l i = Some l1 \<and> wellFormed l1"
  using assms
proof (induction iaf l i rule: connectLoop.induct)
  case (1 iaf l i)
  show ?case
  proof (cases "i < length (polygons l)")
    case False
    with "1.prems" show ?thesis by (subst connectLoop.simps) simp
  next
    case il: True
    then have ci: "closedAt l i = Some (closed' l ! i)"
      using "1.prems" by (simp add: closedAt_def wellFormed_def)
    show ?thesis
    proof (cases "polygons l ! i")
      case None
      with il "1.IH"(1)[OF il None "1.prems"] show ?thesis
        by (subst connectLoop.simps) simp
    next
      case (Some polygon)
      then have pne: "polygon \<noteq> []" using il "1.prems" by (metis nth_mem wellFormed_def)
      show ?thesis
      proof (cases "closed' l ! i")
        case True
        with il Some ci "1.IH"(2)[OF il Some ci True "1.prems"] show ?thesis
          by (subst connectLoop.simps) simp
      next
        case False
        from findBest_total[OF "1.prems" pne, of i 100 "[0..<length (polygons l)]" "- 1" "100 + 1"]
        obtain best bestScore where
          fb: "findBest l i polygon 100 [0..<length (polygons l)] (- 1) (100 + 1) = Some (best, bestScore)"
          by auto
        show ?thesis
        proof (cases "best > - 1")
          case True
          from findBest_found[OF fb] True have bl: "nat best < length (polygons l)"
            and ne: "nat best \<noteq> i" and some: "polygons l ! nat best \<noteq> None"
            by auto
          from some obtain q where q: "polygons l ! nat best = Some q" by blast
          from connectPolygons_total[OF "1.prems" il bl ne Some q, of iaf polygon]
          obtain l1 where c: "connectPolygons iaf l i polygon (nat best) = Some l1"
            and w: "wellFormed l1" by blast
          from "1.IH"(3)[OF il Some ci False fb refl True c w]
          obtain l2 where "connectLoop iaf l1 0 = Some l2" "wellFormed l2" by blast
          with il Some ci False fb True c show ?thesis
            by (subst connectLoop.simps) simp
        next
          case nb: False
          from "1.IH"(4)[OF il Some ci False fb refl nb "1.prems"]
          obtain l2 where "connectLoop iaf l (Suc i) = Some l2" "wellFormed l2" by blast
          with il Some ci False fb nb show ?thesis
            by (subst connectLoop.simps) simp
        qed
      qed
    qed
  qed
qed

text \<open>
  Claim C4, as amended.  For a layer as the stitching leaves it, the repair loop returns a
  layer, and the clean-up that follows returns, in their order, exactly the polygons of
  the repaired layer that are not \<open>nil\<close>, are marked closed (by the earlier steps, or
  because they are almost finished within 1000 micrometers) and have a total length
  strictly greater than 1000 micrometers.  Every open path and every path of total
  length 1000 or less is dropped.
\<close>

theorem finishPolygons_keeps:
  assumes "wellFormed l"
  shows "\<exists>l1 l2. connectLoop iaf l 0 = Some l1 \<and> finishPolygons iaf l = Some l2 \<and>
           polygons l2 = map (\<lambda>i. polygons l1 ! i)
                           (filter (keptPolygon iaf l1) [0..<length (polygons l1)])"
proof -
  from connectLoop_total[OF assms, of iaf 0] obtain l1 where
    r: "connectLoop iaf l 0 = Some l1" and w: "wellFormed l1"
    by blast
  from w have "length (closed' l1) = length (polygons l1)" by (simp add: wellFormed_def)
  from dropPolygons_filter[OF this, of iaf] obtain l2 where
    "dropPolygons iaf l1 = Some l2"
    "polygons l2 = map (\<lambda>i. polygons l1 ! i)
                     (filter (keptPolygon iaf l1) [0..<length (polygons l1)])"
    by blast
  with r show ?thesis by (auto simp: finishPolygons_def)
qed

lemma connectLoop_brokenLayer:
  "connectLoop IsAlmostFinished brokenLayer 0 =
     Some \<lparr>polygons = [Some joined, Some (square 250), None], closed' = [False, True, False]\<rparr>"
  by (simp add: connectLoop.simps brokenLayer_def joined_def closedAt_def connectPolygons_def
        closePolygon_eq upt_rec evalGeom)

theorem finishPolygons_keeps_witness:
  "wellFormed brokenLayer \<and>
   connectLoop IsAlmostFinished brokenLayer 0 =
     Some \<lparr>polygons = [Some joined, Some (square 250), None], closed' = [False, True, False]\<rparr> \<and>
   finishPolygons IsAlmostFinished brokenLayer =
     Some \<lparr>polygons = [Some joined], closed' = [True, True, False]\<rparr>"
proof -
  have w: "wellFormed brokenLayer"
    by (simp add: wellFormed_def brokenLayer_def square_def)
  from finishPolygons_keeps[OF w, of IsAlmostFinished] obtain l1 l2 where
    "connectLoop IsAlmostFinished brokenLayer 0 = Some l1"
    "finishPolygons IsAlmostFinished brokenLayer = Some l2"
    by blast
  moreover have "finishPolygons IsAlmostFinished brokenLayer =
     Some \<lparr>polygons = [Some joined], closed' = [True, True, False]\<rparr>"
    by (simp add: finishPolygons_def connectLoop_brokenLayer dropPolygons_def measurePolygon_def
          closedAt_def closePolygon_eq upt_rec joined_def evalGeom)
  ultimately show ?thesis using w connectLoop_brokenLayer by simp
qed

text \<open>
  The claim as stated fails at the boundary: a closed square of side 250 has the total
  length 1000 and is dropped.
\<close>

theorem finishPolygons_boundary_counterexample:
  "finishPolygons IsAlmostFinished boundaryLayer = Some \<lparr>polygons = [], closed' = [True]\<rparr> \<and>
   polygons boundaryLayer = [Some (square 250)] \<and>
   closed' boundaryLayer ! 0 \<and>
   totalLength (square 250) \<ge> 1000"
  by (simp add: finishPolygons_def connectLoop.simps boundaryLayer_def dropPolygons_def
        closePolygon_eq measurePolygon_def closedAt_def evalGeom)

subsection \<open>What the support detector stores\<close>

lemma detectSupport_eq:
  "detectSupport cl opts layers n =
     Difference cl (LayerParts (layers ! (n + 1)))
        (concat (map (\<lambda>part. offsetPart cl part (quot (RoundedDistance opts) 2))
                   (LayerParts (layers ! n))))"
  by (simp add: detectSupport_def InsetLayerFirst_one)

lemma enlargeSupport_eq: "enlargeSupport cl opts support = enlargedRegion cl opts support"
  by (simp add: enlargeSupport_def enlargedRegion_def InsetLayerFirst_one mult.commute)

lemma detectorLoop_step:
  assumes en: "Enabled opts" and g: "0 \<le> TopGapLayers opts"
    and k: "k + 1 < length cur" "TopGapLayers opts \<le> int k"
    and ok: "differenceOk cl opts cur k"
  shows "detectorLoop cl opts (k # rest) cur =
           detectorLoop cl opts rest
             (cur[k - nat (TopGapLayers opts) := detectedLayer cl opts cur (k - nat (TopGapLayers opts))])"
proof -
  have t: "nat (int k - TopGapLayers opts) = k - nat (TopGapLayers opts)"
    using g k by linarith
  have kk: "k - nat (TopGapLayers opts) + nat (TopGapLayers opts) = k"
    using g k by linarith
  obtain support okf where d: "detectSupport cl opts cur k = (support, okf)"
    by (cases "detectSupport cl opts cur k")
  with ok have okf: okf by (simp add: differenceOk_def detectSupport_eq)
  have s: "supportRegion cl opts cur k = sliceList support"
    using d by (simp add: supportRegion_def detectSupport_eq)
  show ?thesis
    using en g k d okf t
    by (simp add: Let_def newExtendedLayer_id enlargeSupport_eq detectedLayer_def kk s)
qed

lemma LayerParts_detectedLayer: "LayerParts (detectedLayer cl opts cur j) = LayerParts (cur ! j)"
  by (simp add: detectedLayer_def setAttribute_def Let_def)

lemma supportRegion_cong:
  assumes "LayerParts (a ! n) = LayerParts (b ! n)" "LayerParts (a ! (n + 1)) = LayerParts (b ! (n + 1))"
  shows "supportRegion cl opts a n = supportRegion cl opts b n"
    and "differenceOk cl opts a n = differenceOk cl opts b n"
  using assms by (simp_all add: supportRegion_def differenceOk_def)

lemma detectedLayer_cong:
  assumes "a ! j = b ! j"
    and "LayerParts (a ! (j + nat (TopGapLayers opts))) = LayerParts (b ! (j + nat (TopGapLayers opts)))"
    and "LayerParts (a ! (j + nat (TopGapLayers opts) + 1)) = LayerParts (b ! (j + nat (TopGapLayers opts) + 1))"
  shows "detectedLayer cl opts a j = detectedLayer cl opts b j"
proof -
  have "supportRegion cl opts a (j + nat (TopGapLayers opts))
          = supportRegion cl opts b (j + nat (TopGapLayers opts))"
    by (rule supportRegion_cong(1)[OF assms(2) assms(3)])
  then show ?thesis unfolding detectedLayer_def assms(1) by simp
qed

lemma LayerParts_update:
  assumes "t < length cur"
  shows "LayerParts (cur[t := detectedLayer cl opts cur t] ! m) = LayerParts (cur ! m)"
proof (cases "m = t")
  case True
  with assms show ?thesis by (simp add: LayerParts_detectedLayer)
next
  case False
  then show ?thesis by simp
qed

lemma detectorLoop_run:
  assumes en: "Enabled opts" and g: "0 \<le> TopGapLayers opts"
    and ok: "\<forall>n. n + 1 < length cur \<longrightarrow> differenceOk cl opts cur n"
  shows "detectorLoop cl opts [k..<length cur] cur =
           Some (map (\<lambda>j. if k \<le> j + nat (TopGapLayers opts) \<and> j + nat (TopGapLayers opts) + 1 < length cur
                           then detectedLayer cl opts cur j else cur ! j)
                   [0..<length cur], None)"
  using ok
proof (induction "length cur - k" arbitrary: k cur)
  case 0
  then have e: "[k..<length cur] = []" by simp
  have "map (\<lambda>j. if k \<le> j + nat (TopGapLayers opts) \<and> j + nat (TopGapLayers opts) + 1 < length cur
                           then detectedLayer cl opts cur j else cur ! j) [0..<length cur]
        = map (\<lambda>j. cur ! j) [0..<length cur]"
    using 0 by (intro map_cong) auto
  then show ?case unfolding e by (simp add: map_nth)
next
  case (Suc d)
  then have klt: "k < length cur" by simp
  then have up: "[k..<length cur] = k # [Suc k..<length cur]" by (simp add: upt_conv_Cons)
  have d: "d = length cur - Suc k" using Suc.hyps(2) by simp
  show ?case
  proof (cases "int k = int (length cur) - 1 \<or> int k < TopGapLayers opts")
    case True
    have "detectorLoop cl opts [k..<length cur] cur = detectorLoop cl opts [Suc k..<length cur] cur"
      unfolding up using en True by simp
    also have "\<dots> = Some (map (\<lambda>j. if Suc k \<le> j + nat (TopGapLayers opts) \<and> j + nat (TopGapLayers opts) + 1 < length cur
                           then detectedLayer cl opts cur j else cur ! j)
                   [0..<length cur], None)"
      by (rule Suc.hyps(1)[OF d Suc.prems])
    also have "map (\<lambda>j. if Suc k \<le> j + nat (TopGapLayers opts) \<and> j + nat (TopGapLayers opts) + 1 < length cur
                           then detectedLayer cl opts cur j else cur ! j) [0..<length cur]
        = map (\<lambda>j. if k \<le> j + nat (TopGapLayers opts) \<and> j + nat (TopGapLayers opts) + 1 < length cur
                           then detectedLayer cl opts cur j else cur ! j) [0..<length cur]"
    proof (intro map_cong refl)
      fix j
      have "(Suc k \<le> j + nat (TopGapLayers opts) \<and> j + nat (TopGapLayers opts) + 1 < length cur)
            = (k \<le> j + nat (TopGapLayers opts) \<and> j + nat (TopGapLayers opts) + 1 < length cur)"
        using True g by linarith
      then show "(if Suc k \<le> j + nat (TopGapLayers opts) \<and> j + nat (TopGapLayers opts) + 1 < length cur
                           then detectedLayer cl opts cur j else cur ! j)
        = (if k \<le> j + nat (TopGapLayers opts) \<and> j + nat (TopGapLayers opts) + 1 < length cur
                           then detectedLayer cl opts cur j else cur ! j)"
        by simp
    qed
    finally show ?thesis .
  next
    case False
    then have k1: "k + 1 < length cur" and kg: "TopGapLayers opts \<le> int k"
      using klt by linarith+
    define t where "t = k - nat (TopGapLayers opts)"
    define cur1 where "cur1 = cur[t := detectedLayer cl opts cur t]"
    have tk: "t + nat (TopGapLayers opts) = k" using g kg unfolding t_def by linarith
    have tlen: "t < length cur" using klt by (simp add: t_def)
    have len1: "length cur1 = length cur" by (simp add: cur1_def)
    have lp: "LayerParts (cur1 ! m) = LayerParts (cur ! m)" for m
      unfolding cur1_def by (rule LayerParts_update[OF tlen])
    have ok1: "\<forall>n. n + 1 < length cur1 \<longrightarrow> differenceOk cl opts cur1 n"
      using Suc.prems supportRegion_cong(2)[OF lp lp] len1 by simp
    have d1: "d = length cur1 - Suc k" using d len1 by simp
    have okk: "differenceOk cl opts cur k" using Suc.prems k1 by simp
    have "detectorLoop cl opts [k..<length cur] cur = detectorLoop cl opts [Suc k..<length cur1] cur1"
      unfolding up len1 using detectorLoop_step[OF en g k1 kg okk, of "[Suc k..<length cur]"]
      by (simp add: cur1_def t_def)
    also have "\<dots> = Some (map (\<lambda>j. if Suc k \<le> j + nat (TopGapLayers opts) \<and> j + nat (TopGapLayers opts) + 1 < length cur1
                           then detectedLayer cl opts cur1 j else cur1 ! j)
                   [0..<length cur1], None)"
      by (rule Suc.hyps(1)[OF d1 ok1])
    also have "map (\<lambda>j. if Suc k \<le> j + nat (TopGapLayers opts) \<and> j + nat (TopGapLayers opts) + 1 < length cur1
                           then detectedLayer cl opts cur1 j else cur1 ! j) [0..<length cur1]
        = map (\<lambda>j. if k \<le> j + nat (TopGapLayers opts) \<and> j + nat (TopGapLayers opts) + 1 < length cur
                           then detectedLayer cl opts cur j else cur ! j) [0..<length cur]"
      unfolding len1
    proof (intro map_cong refl)
      fix j assume "j \<in> set [0..<length cur]"
      then have jl: "j < length cur" by simp
      show "(if Suc k \<le> j + nat (TopGapLayers opts) \<and> j + nat (TopGapLayers opts) + 1 < length cur
                           then detectedLayer cl opts cur1 j else cur1 ! j)
        = (if k \<le> j + nat (TopGapLayers opts) \<and> j + nat (TopGapLayers opts) + 1 < length cur
                           then detectedLayer cl opts cur j else cur ! j)"
      proof (cases "j = t")
        case True
        then show ?thesis using tk k1 tlen by (simp add: cur1_def)
      next
        case False
        then have ne: "j + nat (TopGapLayers opts) \<noteq> k" using tk by linarith
        have same: "cur1 ! j = cur ! j" using False by (simp add: cur1_def)
        have dl: "detectedLayer cl opts cur1 j = detectedLayer cl opts cur j"
          by (rule detectedLayer_cong[OF same lp lp])
        have "(Suc k \<le> j + nat (TopGapLayers opts)) = (k \<le> j + nat (TopGapLayers opts))"
          using ne by linarith
        then show ?thesis using same dl by simp
      qed
    qed
    finally show ?thesis .
  qed
qed

text \<open>
  Claim C5, as amended.  When support is enabled, the top gap is not negative and every
  difference succeeds, the support detector returns without an error, and for every
  processed layer \<open>n\<close> (every layer below the top one, from \<open>TopGapLayers\<close> on) the region
  obtained as layer \<open>n + 1\<close> minus layer \<open>n\<close> offset by the first offset, half the rounded
  distance, is enlarged by the first offset \<open>3 * PatternSpacing / 2\<close> of the second call
  (only inset 0 is computed, so the offset \<open>-3 * PatternSpacing\<close> is not used) and stored as
  the attribute \<open>support\<close> of layer \<open>n - TopGapLayers\<close> when it is not empty; all other
  attributes and layers stay as they are.
\<close>

theorem supportDetector_stores:
  assumes "Enabled opts" and "0 \<le> TopGapLayers opts"
    and "\<forall>n. n + 1 < length layers \<longrightarrow> differenceOk cl opts layers n"
  shows "supportDetector cl opts layers =
           Some (map (\<lambda>j. if j + nat (TopGapLayers opts) + 1 < length layers
                           then detectedLayer cl opts layers j else layers ! j)
                   [0..<length layers], None)"
  using detectorLoop_run[OF assms, of 0] by (simp add: supportDetector_def)

theorem supportDetector_stores_witness:
  "Enabled supportOn \<and> 0 \<le> TopGapLayers supportOn \<and>
   differenceOk ringClipper supportOn tower 1 \<and>
   supportRegion ringClipper supportOn tower 1 = [ringPart (5100, 10000)] \<and>
   supportDetector ringClipper supportOn tower = Some (towerDetected, None)"
  using supportDetector_stores[of supportOn tower ringClipper]
  by (simp add: detectedLayer_def supportRegion_def enlargedRegion_def differenceOk_def
        towerDetected_def setAttribute_def upt_rec evalRing)

text \<open>
  The claim as stated fails: with the pattern spacing 1000 the ring between the half
  sides 5100 and 10000 is stored enlarged by 1500, as the ring between 3600 and 11500,
  and not enlarged by 3000.
\<close>

theorem supportDetector_enlarge_counterexample:
  "supportDetector ringClipper supportOn overhang =
     Some ([setAttribute (overhang ! 0) ''support''
              (AttrLayerParts (Some [ringPart (3600, 11500)])),
            overhang ! 1], None) \<and>
   supportRegion ringClipper supportOn overhang 0 = [ringPart (5100, 10000)] \<and>
   ringOffset (ringPart (5100, 10000)) (3 * PatternSpacing supportOn) = [ringPart (2100, 13000)] \<and>
   ringPart (3600, 11500) \<noteq> ringPart (2100, 13000)"
  by (simp add: supportRegion_def evalSupport evalRing upt_rec)

subsection \<open>The start sequence\<close>

text \<open>
  Claim C6, as amended.  On layer 0 the commands of the start sequence are, in this
  order: switch the fan off, start heating the hot end, heat the bed and wait, wait for
  the hot end, lift the nozzle to Z=5, and reset the extrusion distance E to zero; they
  are followed only by the fan and temperature commands that the options set for layer 0.
  No command homes the printer.
\<close>

theorem PreLayer_start_sequence:
  "commands (PreLayer_Render 0 options) =
     [''M107 ; disable fan'',
      ''M104 S'' @ showInt (InitialHotEndTemperature (Filament options)) @ '' ; start heating hot end'',
      ''M190 S'' @ showInt (InitialBedTemperature (Filament options)) @ '' ; heat and wait for bed'',
      ''M109 S'' @ showInt (InitialHotEndTemperature (Filament options))
         @ '' ; wait for hot end temperature'',
      ''G1 Z5 F5000 ; lift nozzle'',
      ''G92 E0 ; reset extrusion distance'']
     @ fanCommands 0 options @ temperatureCommands 0 options \<and>
   filter isHome (commands (PreLayer_Render 0 options)) = []"
proof -
  have c: "commands (PreLayer_Render 0 options) =
     [''M107 ; disable fan'',
      ''M104 S'' @ showInt (InitialHotEndTemperature (Filament options)) @ '' ; start heating hot end'',
      ''M190 S'' @ showInt (InitialBedTemperature (Filament options)) @ '' ; heat and wait for bed'',
      ''M109 S'' @ showInt (InitialHotEndTemperature (Filament options))
         @ '' ; wait for hot end temperature'',
      ''G1 Z5 F5000 ; lift nozzle'',
      ''G92 E0 ; reset extrusion distance'']
     @ fanCommands 0 options @ temperatureCommands 0 options"
    by (simp add: PreLayer_Render_def fanCommands_def temperatureCommands_def
          split: option.splits)
  have f: "filter isHome (fanCommands 0 options) = []"
    by (simp add: fanCommands_def isHome_def split: option.splits)
  have t: "filter isHome (temperatureCommands 0 options) = []"
    by (simp add: temperatureCommands_def isHome_def)
  show ?thesis unfolding c using f t by (simp add: isHome_def)
qed

theorem PreLayer_start_sequence_witness:
  "commands (PreLayer_Render 0 exampleOptions) =
     [''M107 ; disable fan'', ''M104 S205 ; start heating hot end'',
      ''M190 S60 ; heat and wait for bed'', ''M109 S205 ; wait for hot end temperature'',
      ''G1 Z5 F5000 ; lift nozzle'', ''G92 E0 ; reset extrusion distance'']"
  using PreLayer_start_sequence[of exampleOptions]
  by (simp add: exampleOptions_def fanCommands_def temperatureCommands_def showInt_def
        showNat.simps)

text \<open>
  The claim as stated fails: the start sequence holds no home command.  The only home
  command of the renderers is the one of the end sequence.
\<close>

theorem PreLayer_no_home_counterexample:
  "filter isHome (commands (PreLayer_Render 0 exampleOptions)) = [] \<and>
   filter isHome (commands (PostLayer_Render 7 7 exampleOptions))
     = [''G28 X0  ; home X axis to get head out of the way'']"
  by (simp add: PreLayer_Render_def PostLayer_Render_def exampleOptions_def isHome_def)

subsection \<open>Reading the fullSupport attribute\<close>

text \<open>
  Claim C7.  For every partitioned layer, \<open>FullSupport\<close> returns the stored list of layer
  parts without an error when the attribute \<open>fullSupport\<close> exists with the right type, it
  returns \<open>nil\<close> without an error when the attribute is missing, and it returns an error
  exactly when the attribute exists with another type.
\<close>

theorem FullSupport_result:
  "(Attributes layer ''fullSupport'' = None \<longrightarrow> FullSupport layer = (None, None)) \<and>
   (\<forall>ps. Attributes layer ''fullSupport'' = Some (AttrLayerParts ps)
           \<longrightarrow> FullSupport layer = (ps, None)) \<and>
   (snd (FullSupport layer) \<noteq> None
      \<longleftrightarrow> (\<exists>a. Attributes layer ''fullSupport'' = Some a \<and> \<not> isLayerParts a))"
  by (auto simp: FullSupport_def split: option.splits attribute.splits)

theorem FullSupport_result_witness:
  "FullSupport layerNoSupport = (None, None) \<and>
   FullSupport layerFullSupport = (Some [partA], None) \<and>
   snd (FullSupport layerWrongType) \<noteq> None"
  using FullSupport_result[of layerNoSupport] FullSupport_result[of layerFullSupport]
    FullSupport_result[of layerWrongType]
  by (simp add: layerNoSupport_def layerFullSupport_def layerWrongType_def)

subsection \<open>Closing a polygon keeps every point\<close>

text \<open>
  Claim C8.  \<open>removeLastPoint\<close> leaves the layer as it is for every index of a polygon
  (it slices the path to its full length), so closing a polygon, which calls it and then
  sets the flag, keeps every point of every polygon, the repeated end point included.
\<close>

theorem removeLastPoint_unchanged:
  "(polyIndex < length (polygons l) \<longrightarrow> removeLastPoint l polyIndex = Some l) \<and>
   (\<forall>l'. closePolygon l polyIndex = Some l'
          \<longrightarrow> polygons l' = polygons l \<and> closedAt l' polyIndex = Some True)"
  by (auto simp: removeLastPoint_id closePolygon_eq closedAt_def split: if_splits)

theorem removeLastPoint_unchanged_witness:
  "removeLastPoint openSquareLayer 0 = Some openSquareLayer \<and>
   (\<exists>l'. closePolygon openSquareLayer 0 = Some l' \<and>
         polygons l' = [Some (square 300)] \<and>
         last (square 300) = hd (square 300) \<and> closedAt l' 0 = Some True)"
  using removeLastPoint_unchanged[of 0 openSquareLayer]
  by (simp add: openSquareLayer_def closePolygon_eq square_def)

text \<open>
  The same holds where the repair loop joins two polygons: the joined polygon holds all
  points of both, whether it is closed then or not.
\<close>

lemma connectPolygons_keeps_points:
  assumes "i < length (polygons l)" "best < length (polygons l)" "best \<noteq> i"
    and "polygons l ! i = Some p" "polygons l ! best = Some q"
    and "connectPolygons iaf l i polygon best = Some l1"
  shows "polygons l1 ! i = Some (p @ q)"
  using connectPolygons_eq[OF assms(1,2,4,5,6)] assms(1,3) by simp

subsection \<open>Support switched off\<close>

text \<open>
  Claim C9.  When support is disabled in the options, the support detector and the support
  generator both return \<open>nil\<close> at once and leave the layers, and with them every attribute
  map, as they are.
\<close>

theorem support_disabled_unchanged:
  "\<not> Enabled opts \<Longrightarrow>
   supportDetector cl opts layers = Some (layers, None) \<and>
   supportGenerator cl brimOuterDimension opts layers = Some (layers, None)"
  by (simp add: supportDetector_def supportGenerator_def detectorLoop_disabled
        generatorLoop_disabled)

theorem support_disabled_unchanged_witness:
  "\<not> Enabled supportOff \<and>
   supportDetector ringClipper supportOff towerDetected = Some (towerDetected, None) \<and>
   supportGenerator ringClipper noBrim supportOff towerDetected = Some (towerDetected, None)"
  using support_disabled_unchanged[of supportOff ringClipper towerDetected noBrim]
  by (simp add: supportOff_def supportOn_def)

subsection \<open>What the support generator stores\<close>

lemma saveSupport_support:
  "Attributes (saveSupport below actualSupport interfaceParts awi) ''support'' =
     Some (AttrLayerParts (if 0 < len awi then awi else Some []))"
  by (simp add: saveSupport_def setAttribute_def Let_def)

lemma saveSupport_LayerParts:
  "LayerParts (saveSupport below actualSupport interfaceParts awi) = LayerParts below"
  by (simp add: saveSupport_def setAttribute_def newExtendedLayer_def Let_def)



lemma generateSupport_Stored:
  assumes "generateSupport cl brim opts layers layerNr lastSupport = Some (Stored lastSupport1 layers1)"
  shows "\<exists>a i w. supportAreas cl brim opts layers layerNr lastSupport = Some (Areas a i w) \<and>
           lastSupport1 = a \<and>
           layers1 = layers[layerNr - 1 := saveSupport (layers ! (layerNr - 1)) a i w]"
  using assms
  by (auto simp: generateSupport_def split: if_splits option.splits areas.splits)



text \<open>
  Over a whole run, every layer that the generator has changed carries the attribute
  \<open>support\<close> that some round has stored.
\<close>

lemma supportSet_saveSupport: "supportSet (saveSupport below a i w)"
  by (cases w) (auto simp: supportSet_def saveSupport_support len_def)

lemma generatorLoop_frame:
  assumes "generatorLoop cl brim opts ns lastSupport layers = Some (layers', err)"
  shows "length layers' = length layers \<and>
         (\<forall>j<length layers. layers' ! j = layers ! j \<or> supportSet (layers' ! j))"
  using assms
proof (induction ns arbitrary: lastSupport layers)
  case Nil
  then show ?case by simp
next
  case (Cons layerNr rest)
  show ?case
  proof (cases "\<not> Enabled opts \<or> layerNr = 0")
    case True
    with Cons.prems show ?thesis by auto
  next
    case False
    show ?thesis
    proof (cases "generateSupport cl brim opts layers layerNr lastSupport")
      case None
      with False Cons.prems show ?thesis by simp
    next
      case (Some r)
      show ?thesis
      proof (cases r)
        case (Return e)
        with False Some Cons.prems show ?thesis by auto
      next
        case Continue
        with False Some Cons.prems have "generatorLoop cl brim opts rest lastSupport layers = Some (layers', err)"
          by simp
        from Cons.IH[OF this] show ?thesis .
      next
        case (Stored ls1 layers1)
        with False Some Cons.prems have run: "generatorLoop cl brim opts rest ls1 layers1 = Some (layers', err)"
          by simp
        from Some Stored generateSupport_Stored[of cl brim opts layers layerNr lastSupport ls1 layers1]
        obtain a i w where
          l1: "layers1 = layers[layerNr - 1 := saveSupport (layers ! (layerNr - 1)) a i w]"
          by blast
        from Cons.IH[OF run] have len: "length layers' = length layers1"
          and fr: "\<forall>j<length layers1. layers' ! j = layers1 ! j \<or> supportSet (layers' ! j)"
          by blast+
        have len1: "length layers1 = length layers" using l1 by simp
        have "layers' ! j = layers ! j \<or> supportSet (layers' ! j)" if "j < length layers" for j
        proof (cases "j = layerNr - 1")
          case True
          then have "supportSet (layers1 ! j)" using that l1 by (simp add: supportSet_saveSupport)
          with fr that len1 show ?thesis by metis
        next
          case False
          then have "layers1 ! j = layers ! j" using l1 by simp
          with fr that len1 show ?thesis by metis
        qed
        with len len1 show ?thesis by simp
      qed
    qed
  qed
qed

lemma supportGenerator_frame:
  assumes "supportGenerator cl brim opts layers = Some (layers', err)"
  shows "length layers' = length layers \<and>
         (\<forall>j<length layers. layers' ! j = layers ! j \<or> supportSet (layers' ! j))"
  using assms unfolding supportGenerator_def by (rule generatorLoop_frame)

end
